theory Spec2Isabelle
  imports Main "HOL-Library.Sublist" "HOL-Library.AList"
begin

section \<open>Texts\<close>

text \<open>
  The generator of \<^verbatim>\<open>doppio/commands/spa_generator.py\<close> works on Python
  \<^verbatim>\<open>str\<close> values. A text is modelled as a \<^typ>\<open>string\<close>, one
  \<^typ>\<open>char\<close> per code point, which covers the code points below 256.
\<close>

definition newline :: char where
  "newline = CHR 0x0A"

definition quote :: char where
  "quote = CHR 0x27"

definition backslash :: char where
  "backslash = CHR 0x5C"

text \<open>
  The class \<^verbatim>\<open>\s\<close> of Python's \<^verbatim>\<open>re\<close> on a \<^verbatim>\<open>str\<close> pattern is
  \<^verbatim>\<open>str.isspace\<close>: below 256 these are TAB, LF, VT, FF, CR, the four separators
  0x1C to 0x1F, the space, NEL (0x85) and the no-break space (0xA0).
\<close>

definition is_space :: "char \<Rightarrow> bool" where
  "is_space c \<longleftrightarrow> c \<in> set [CHR 0x09, CHR 0x0A, CHR 0x0B, CHR 0x0C, CHR 0x0D,
     CHR 0x1C, CHR 0x1D, CHR 0x1E, CHR 0x1F, CHR 0x20, CHR 0x85, CHR 0xA0]"

text \<open>
  \<^verbatim>\<open>s.replace(old, new)\<close>: the occurrences of \<^verbatim>\<open>old\<close> are found from left to
  right and do not overlap; the text put in is not scanned again. With an empty
  \<^verbatim>\<open>old\<close>, Python puts \<^verbatim>\<open>new\<close> before every character and at the end.
\<close>

function str_replace :: "string \<Rightarrow> string \<Rightarrow> string \<Rightarrow> string" where
  "str_replace old new s =
     (if old = [] then new @ concat (map (\<lambda>c. c # new) s)
      else if prefix old s then new @ str_replace old new (drop (length old) s)
      else (case s of [] \<Rightarrow> [] | c # cs \<Rightarrow> c # str_replace old new cs))"
  by pat_completeness auto
termination
  by (relation "measure (\<lambda>(old, new, s). length s)") (auto simp: prefix_def)

declare str_replace.simps [simp del]

section \<open>The regular expression\<close>

text \<open>
  The part of Python's \<^verbatim>\<open>re\<close> that the pattern
  \<^verbatim>\<open>website_route_rules\s?=\s?\[(.+)\]\<close> uses. An atom matches one character: a literal,
  \<^verbatim>\<open>\s\<close>, or \<^verbatim>\<open>.\<close> (any character but the line feed, as no flag is given).
  A node is an atom, an atom under \<^verbatim>\<open>?\<close>, or the capturing group of an atom under
  \<^verbatim>\<open>+\<close>.
\<close>

datatype atom = Lit char | Space | AnyChar

datatype node = One atom | Optional atom | GroupPlus atom

fun atom_matches :: "atom \<Rightarrow> char \<Rightarrow> bool" where
  "atom_matches (Lit a) c = (c = a)"
| "atom_matches Space c = is_space c"
| "atom_matches AnyChar c = (c \<noteq> newline)"

fun first_some :: "'a option list \<Rightarrow> 'a option" where
  "first_some [] = None"
| "first_some (None # xs) = first_some xs"
| "first_some (Some x # xs) = Some x"

text \<open>
  \<open>re_match ns s g\<close> matches the nodes \<open>ns\<close> at the start of \<open>s\<close>, the way the
  backtracking matcher does: \<^verbatim>\<open>?\<close> and \<^verbatim>\<open>+\<close> are greedy, they try the longest
  choice first and give characters back one at a time while the rest of the pattern
  fails. The result is the text of group 1 (\<open>g\<close> until the group is met) and the text
  left after the match.
\<close>

fun re_match :: "node list \<Rightarrow> string \<Rightarrow> string \<Rightarrow> (string \<times> string) option" where
  "re_match [] s g = Some (g, s)"
| "re_match (One a # ns) s g =
     (case s of [] \<Rightarrow> None
      | c # cs \<Rightarrow> if atom_matches a c then re_match ns cs g else None)"
| "re_match (Optional a # ns) s g =
     (case s of [] \<Rightarrow> re_match ns s g
      | c # cs \<Rightarrow>
          if atom_matches a c
          then (case re_match ns cs g of Some m \<Rightarrow> Some m | None \<Rightarrow> re_match ns s g)
          else re_match ns s g)"
| "re_match (GroupPlus a # ns) s g =
     first_some (map (\<lambda>k. re_match ns (drop k s) (take k s))
       (rev [1 ..< Suc (length (takeWhile (atom_matches a) s))]))"

definition variable :: string where
  "variable = ''website_route_rules''"

definition pattern :: "node list" where
  "pattern = map (\<lambda>c. One (Lit c)) variable @
     [Optional Space, One (Lit (CHR ''='')), Optional Space, One (Lit (CHR ''['')),
      GroupPlus AnyChar, One (Lit (CHR '']''))]"

definition match_at :: "string \<Rightarrow> (string \<times> string) option" where
  "match_at s = re_match pattern s []"

text \<open>
  \<^verbatim>\<open>pattern.search(s)\<close>: the leftmost position where the pattern matches. The result is
  the text before the match, group 1 and the text after the match.
\<close>

fun search :: "string \<Rightarrow> (string \<times> string \<times> string) option" where
  "search [] = (case match_at [] of Some (g, r) \<Rightarrow> Some ([], g, r) | None \<Rightarrow> None)"
| "search (c # cs) =
     (case match_at (c # cs) of Some (g, r) \<Rightarrow> Some ([], g, r)
      | None \<Rightarrow> (case search cs of Some (p, g, r) \<Rightarrow> Some (c # p, g, r) | None \<Rightarrow> None))"

text \<open>
  The replacement template \<^verbatim>\<open>r"website_route_rules = [{rule}, \1]"\<close>, with group 1
  put in for \<^verbatim>\<open>\1\<close>.
\<close>

definition placeholder :: string where
  "placeholder = ''{rule}''"

definition expand :: "string \<Rightarrow> string" where
  "expand g = ''website_route_rules = ['' @ placeholder @ '', '' @ g @ '']''"

text \<open>
  \<^verbatim>\<open>pattern.sub(template, s)\<close>: every match, from left to right and without overlap,
  is replaced by the expanded template; the search goes on after the end of the match.
  A match of this pattern is never empty.
\<close>

function sub :: "string \<Rightarrow> string" where
  "sub s = (case search s of None \<Rightarrow> s
            | Some m \<Rightarrow> fst m @ expand (fst (snd m)) @ sub (snd (snd m)))"
  by pat_completeness auto
termination
proof (relation "measure length")
  show "wf (measure length)" by simp
next
  fix s :: string and m :: "string \<times> string \<times> string"
  assume found: "search s = Some m"
  have first: "\<exists>k \<in> set ks. f k = Some x" if "first_some (map f ks) = Some x"
    for f :: "nat \<Rightarrow> (string \<times> string) option" and ks x
    using that
  proof (induction ks)
    case Nil
    then show ?case by simp
  next
    case (Cons k ks)
    then show ?case by (cases "f k") auto
  qed
  have shorter: "length r \<le> length t" if "re_match ns t g = Some (g', r)" for ns t g g' r
    using that
  proof (induction ns t g arbitrary: g' r rule: re_match.induct)
    case (1 s g)
    then show ?case by simp
  next
    case (2 a ns s g)
    show ?case
    proof (cases s)
      case Nil
      with "2.prems" show ?thesis by simp
    next
      case (Cons c cs)
      with "2.prems" have "atom_matches a c" "re_match ns cs g = Some (g', r)"
        by (auto split: if_splits)
      from "2.IH" [OF Cons this] Cons show ?thesis by simp
    qed
  next
    case (3 a ns s g)
    show ?case
    proof (cases s)
      case Nil
      with "3.prems" "3.IH"(1) show ?thesis by simp
    next
      case (Cons c cs)
      show ?thesis
      proof (cases "atom_matches a c")
        case True
        show ?thesis
        proof (cases "re_match ns cs g")
          case None
          with "3.prems" Cons True have "re_match ns s g = Some (g', r)" by simp
          from "3.IH"(3) [OF Cons True None this] show ?thesis .
        next
          case (Some m)
          with "3.prems" Cons True have "re_match ns cs g = Some (g', r)" by simp
          from "3.IH"(2) [OF Cons True this] Cons show ?thesis by simp
        qed
      next
        case False
        with "3.prems" Cons have "re_match ns s g = Some (g', r)" by simp
        from "3.IH"(4) [OF Cons False this] show ?thesis .
      qed
    qed
  next
    case (4 a ns s g)
    from first [OF "4.prems" [unfolded re_match.simps]]
    obtain k where k: "k \<in> set (rev [1 ..< Suc (length (takeWhile (atom_matches a) s))])"
      and m: "re_match ns (drop k s) (take k s) = Some (g', r)"
      by blast
    from "4.IH" [OF k m] show ?case by simp
  qed
  have strict: "length r < length t" if "match_at t = Some (g', r)" for t g' r
  proof (cases t)
    case Nil
    with that show ?thesis by (simp add: match_at_def pattern_def variable_def)
  next
    case (Cons c cs)
    with that have "re_match (tl pattern) cs [] = Some (g', r)"
      by (simp add: match_at_def pattern_def variable_def split: if_splits)
    from shorter [OF this] Cons show ?thesis by simp
  qed
  have "length (snd (snd m')) < length t" if "search t = Some m'" for t m'
    using that
  proof (induction t arbitrary: m')
    case Nil
    then show ?case by (auto split: option.splits dest: strict)
  next
    case (Cons c cs)
    then show ?case by (fastforce split: option.splits dest: strict)
  qed
  from this [OF found] show "(snd (snd m), s) \<in> measure length" by simp
qed

declare sub.simps [simp del]

section \<open>The routing rule put into hooks.py\<close>

text \<open>
  The local \<^verbatim>\<open>rule\<close> of \<^verbatim>\<open>add_routing_rule_to_hooks\<close>:
  \<^verbatim>\<open>"{" + f"'from_route': '/{self.spa_name}/<path:app_path>', 'to_route': '{self.spa_name}'" + "}"\<close>.
\<close>

definition rule :: "string \<Rightarrow> string" where
  "rule name = ''{'' @ (quote # ''from_route': '/'' @ name @ ''/<path:app_path>', 'to_route': ''
     @ quote # name @ [quote]) @ ''}''"

text \<open>
  The local \<^verbatim>\<open>rules\<close>: the text of hooks.py with the template put in at every match,
  or, where the pattern finds nothing, with a declaration appended.
\<close>

definition rules :: "string \<Rightarrow> string" where
  "rules hooks =
     (if search hooks = None
      then hooks @ newline # ''website_route_rules = ['' @ placeholder @ '',]''
      else sub hooks)"

text \<open>
  The local \<^verbatim>\<open>updates_hooks\<close>, the text written back to hooks.py:
  \<^verbatim>\<open>rules.replace("{rule}", rule)\<close>.
\<close>

definition updates_hooks :: "string \<Rightarrow> string \<Rightarrow> string" where
  "updates_hooks hooks name = str_replace placeholder (rule name) (rules hooks)"

section \<open>The file system and the external collaborators\<close>

text \<open>
  The generator reads and writes files, prints, and runs external commands.

  A path is what \<^verbatim>\<open>pathlib\<close> holds of a POSIX path: its root (empty, \<^verbatim>\<open>/\<close> or
  \<^verbatim>\<open>//\<close>) and its components. \<open>Path\<close> reads a text as \<^verbatim>\<open>Path(text)\<close> does: the
  text is cut at the slashes, the empty components and the components \<^verbatim>\<open>.\<close> are
  dropped, \<^verbatim>\<open>..\<close> is kept. \<open>joinpath\<close> is \<^verbatim>\<open>p / text\<close>: a text that starts with a
  slash replaces \<open>p\<close>, any other text adds its components. \<open>path_str\<close> is
  \<^verbatim>\<open>str(p)\<close>.
\<close>

datatype error = FileNotFoundError | FileExistsError | IsADirectoryError | NotADirectoryError
  | KeyError | TypeError | JSONDecodeError | OSError

datatype path = PosixPath (root_of: string) (parts: "string list")

fun split_sep :: "char \<Rightarrow> string \<Rightarrow> string list" where
  "split_sep s [] = [[]]"
| "split_sep s (c # cs) =
     (if c = s then [] # split_sep s cs
      else (case split_sep s cs of [] \<Rightarrow> [[c]] | x # xs \<Rightarrow> (c # x) # xs))"

definition parse_parts :: "string \<Rightarrow> string list" where
  "parse_parts t = filter (\<lambda>x. x \<noteq> [] \<and> x \<noteq> ''.'') (split_sep CHR ''/'' t)"

definition parse_root :: "string \<Rightarrow> string" where
  "parse_root t =
     (if prefix ''//'' t \<and> \<not> prefix ''///'' t then ''//''
      else if prefix ''/'' t then ''/''
      else [])"

definition Path :: "string \<Rightarrow> path" where
  "Path t = PosixPath (parse_root t) (parse_parts t)"

definition joinpath :: "path \<Rightarrow> string \<Rightarrow> path" where
  "joinpath p t =
     (if prefix ''/'' t then Path t else PosixPath (root_of p) (parts p @ parse_parts t))"

fun join_sep :: "string \<Rightarrow> string list \<Rightarrow> string" where
  "join_sep s [] = []"
| "join_sep s [x] = x"
| "join_sep s (x # y # ys) = x @ s @ join_sep s (y # ys)"

definition path_str :: "path \<Rightarrow> string" where
  "path_str p =
     (if root_of p = [] \<and> parts p = [] then ''.'' else root_of p @ join_sep ''/'' (parts p))"

text \<open>
  A location is the list of the names from the root directory down to a file or a
  directory. The state holds the texts of the regular files and the set of the
  directories, both by location, the current directory of the process, and what was
  printed (\<^verbatim>\<open>print\<close> and \<^verbatim>\<open>click.echo\<close>, one entry per call). The current directory
  and the directories above it exist. A file holds the text as it was written, before
  any translation of line ends; its encoding is not modelled.

  There are no symbolic links and every access is permitted; the names are those of a
  command line, so they hold no NUL character and fit the limits of the file system.
\<close>

type_synonym location = "string list"

record state =
  files :: "location \<rightharpoonup> string"
  dirs :: "location set"
  cwd :: location
  stdout :: "string list"

datatype json = JNull | JBool bool | JNumber string | JString string
  | JArray "json list" | JObject "(string \<times> json) list"

definition is_dir :: "state \<Rightarrow> location \<Rightarrow> bool" where
  "is_dir st l \<longleftrightarrow> l \<in> dirs st \<or> prefix l (cwd st)"

definition is_file :: "state \<Rightarrow> location \<Rightarrow> bool" where
  "is_file st l \<longleftrightarrow> \<not> is_dir st l \<and> files st l \<noteq> None"

text \<open>
  The system follows the components of a path from the current directory, or from the
  root for a path with a root. Every component but the last must be a directory:
  ENOTDIR for a regular file there, ENOENT for nothing there. \<^verbatim>\<open>..\<close> is the
  directory above, and the root is above itself. The last component need not exist.
\<close>

fun walk :: "state \<Rightarrow> location \<Rightarrow> string list \<Rightarrow> error + location" where
  "walk st l [] = Inr l"
| "walk st l (c # cs) =
     (if c = ''..'' then walk st (butlast l) cs
      else if cs = [] then Inr (l @ [c])
      else if is_dir st (l @ [c]) then walk st (l @ [c]) cs
      else if is_file st (l @ [c]) then Inl NotADirectoryError
      else Inl FileNotFoundError)"

definition resolve :: "state \<Rightarrow> path \<Rightarrow> error + location" where
  "resolve st p = walk st (if root_of p = [] then cwd st else []) (parts p)"

text \<open>\<^verbatim>\<open>p.exists()\<close>: False where the path cannot be followed.\<close>

definition exists :: "state \<Rightarrow> path \<Rightarrow> bool" where
  "exists st p \<longleftrightarrow>
     (case resolve st p of Inl err \<Rightarrow> False | Inr l \<Rightarrow> is_dir st l \<or> is_file st l)"

text \<open>\<^verbatim>\<open>p.absolute()\<close>: the current directory is put in front, nothing is normalised.\<close>

definition absolute :: "state \<Rightarrow> path \<Rightarrow> path" where
  "absolute st p = (if root_of p \<noteq> [] then p else PosixPath ''/'' (cwd st @ parts p))"

definition echo :: "string \<Rightarrow> state \<Rightarrow> state" where
  "echo msg st = st\<lparr>stdout := stdout st @ [msg]\<rparr>"

text \<open>
  A file opened for reading in text mode gives every line end as a line feed: a
  carriage return with a line feed after it, and a carriage return alone, become one
  line feed.
\<close>

fun universal_newlines :: "string \<Rightarrow> string" where
  "universal_newlines [] = []"
| "universal_newlines [c] = [if c = CHR 0x0D then newline else c]"
| "universal_newlines (c # d # cs) =
     (if c = CHR 0x0D
      then (if d = newline then newline # universal_newlines cs
            else newline # universal_newlines (d # cs))
      else c # universal_newlines (d # cs))"

text \<open>\<^verbatim>\<open>with p.open("r") as f: f.read()\<close>\<close>

definition read_text :: "path \<Rightarrow> state \<Rightarrow> error + string" where
  "read_text p st =
     (case resolve st p of
        Inl err \<Rightarrow> Inl err
      | Inr l \<Rightarrow>
          if is_dir st l then Inl IsADirectoryError
          else (case files st l of
                  None \<Rightarrow> Inl FileNotFoundError
                | Some t \<Rightarrow> Inr (universal_newlines t)))"

text \<open>
  \<^verbatim>\<open>with p.open("w") as f: f.write(t)\<close>: the file is created or emptied in the
  directory that holds it, which must exist. On POSIX the text is written as it is.
\<close>

definition write_text :: "path \<Rightarrow> string \<Rightarrow> state \<Rightarrow> error + state" where
  "write_text p t st =
     (case resolve st p of
        Inl err \<Rightarrow> Inl err
      | Inr l \<Rightarrow>
          if is_dir st l then Inl IsADirectoryError
          else Inr (st\<lparr>files := (files st)(l \<mapsto> t)\<rparr>))"

text \<open>\<^verbatim>\<open>p.mkdir()\<close>: the directory above must exist, the path itself must not.\<close>

definition mkdir :: "path \<Rightarrow> state \<Rightarrow> error + state" where
  "mkdir p st =
     (case resolve st p of
        Inl err \<Rightarrow> Inl err
      | Inr l \<Rightarrow>
          if is_dir st l \<or> is_file st l then Inl FileExistsError
          else Inr (st\<lparr>dirs := insert l (dirs st)\<rparr>))"

text \<open>
  \<^verbatim>\<open>p.touch()\<close>: what exists is left as it is (its times apart); otherwise an empty
  file is created in the directory that holds it, which must exist.
\<close>

definition touch :: "path \<Rightarrow> state \<Rightarrow> error + state" where
  "touch p st =
     (if exists st p then Inr st
      else (case resolve st p of
              Inl err \<Rightarrow> Inl err
            | Inr l \<Rightarrow> Inr (st\<lparr>files := (files st)(l \<mapsto> [])\<rparr>)))"

text \<open>An exception ends the run of the steps that follow it.\<close>

definition and_then :: "error + 'a \<Rightarrow> ('a \<Rightarrow> error + 'b) \<Rightarrow> error + 'b" where
  "and_then m f = (case m of Inl e \<Rightarrow> Inl e | Inr x \<Rightarrow> f x)"

fun run_steps :: "(state \<Rightarrow> error + state) list \<Rightarrow> state \<Rightarrow> error + state" where
  "run_steps [] st = Inr st"
| "run_steps (step # steps) st = and_then (step st) (run_steps steps)"

text \<open>
  What the module imports and src/ does not hold: \<^verbatim>\<open>subprocess.run\<close> (the effect of
  a command, run in a directory, on the file system), \<^verbatim>\<open>create_file\<close> of
  \<^verbatim>\<open>.utils\<close>, \<^verbatim>\<open>json.load\<close> and \<^verbatim>\<open>json.dump\<close>, and the constants of
  \<^verbatim>\<open>.boilerplates\<close>.
\<close>

record env =
  run_process :: "string list \<Rightarrow> path \<Rightarrow> state \<Rightarrow> error + state"
  create_file :: "path \<Rightarrow> string \<Rightarrow> state \<Rightarrow> error + state"
  json_load :: "string \<Rightarrow> json option"
  json_dump :: "json \<Rightarrow> string"
  MAIN_JS_BOILERPLATE :: string
  PROXY_OPTIONS_BOILERPLATE :: string
  VITE_CONFIG_BOILERPLATE :: string
  ROUTER_INDEX_BOILERPLATE :: string
  AUTH_ROUTES_BOILERPLATE :: string
  APP_VUE_BOILERPLATE :: string
  HOME_VUE_BOILERPLATE :: string
  LOGIN_VUE_BOILERPLATE :: string

section \<open>The generator\<close>

record SPAGenerator =
  app :: string
  spa_name :: string
  add_tailwindcss :: bool

definition app_path :: "SPAGenerator \<Rightarrow> path" where
  "app_path self = joinpath (Path ''../apps'') (app self)"

definition spa_path :: "SPAGenerator \<Rightarrow> path" where
  "spa_path self = joinpath (app_path self) (spa_name self)"

definition INDEX_CSS_BOILERPLATE :: string where
  "INDEX_CSS_BOILERPLATE = ''@tailwind base;'' @ newline # ''@tailwind components;'' @ newline #
     ''@tailwind utilities;'' @ [newline, CHR 0x09]"

definition setup_tailwindcss :: "env \<Rightarrow> SPAGenerator \<Rightarrow> state \<Rightarrow> error + state" where
  "setup_tailwindcss e self st =
     and_then (run_process e
         [''npm'', ''install'', ''-D'', ''tailwindcss@latest'', ''postcss@latest'',
          ''autoprefixer@latest''] (spa_path self) st) (\<lambda>st.
     and_then (run_process e [''npx'', ''tailwindcss'', ''init'', ''-p''] (spa_path self) st) (\<lambda>st.
     create_file e (joinpath (spa_path self) ''src/index.css'') INDEX_CSS_BOILERPLATE st))"

definition create_vue_files :: "env \<Rightarrow> SPAGenerator \<Rightarrow> state \<Rightarrow> error + state" where
  "create_vue_files e self st =
     (let views_dir = joinpath (spa_path self) ''src/views'' in
      and_then (create_file e (joinpath (spa_path self) ''src/App.vue'') (APP_VUE_BOILERPLATE e) st)
        (\<lambda>st.
      and_then (if \<not> exists st views_dir then mkdir views_dir st else Inr st) (\<lambda>st.
      and_then (create_file e (joinpath views_dir ''Home.vue'') (HOME_VUE_BOILERPLATE e) st) (\<lambda>st.
      create_file e (joinpath views_dir ''Login.vue'') (LOGIN_VUE_BOILERPLATE e) st))))"

definition setup_vue_router :: "env \<Rightarrow> SPAGenerator \<Rightarrow> state \<Rightarrow> error + state" where
  "setup_vue_router e self st =
     (let router_dir_path = joinpath (spa_path self) ''src/router'' in
      and_then (mkdir router_dir_path st) (\<lambda>st.
      and_then (create_file e (joinpath router_dir_path ''index.js'')
          (str_replace ''{{name}}'' (spa_name self) (ROUTER_INDEX_BOILERPLATE e)) st) (\<lambda>st.
      create_file e (joinpath router_dir_path ''auth.js'') (AUTH_ROUTES_BOILERPLATE e) st)))"

definition initialize_vue_vite_project :: "env \<Rightarrow> SPAGenerator \<Rightarrow> state \<Rightarrow> error + state" where
  "initialize_vue_vite_project e self st =
     and_then (run_process e [''yarn'', ''create'', ''vite'', spa_name self, ''--template'', ''vue'']
         (app_path self) (echo ''Scafolding vue project...'' st)) (\<lambda>st.
     run_process e [''yarn'', ''add'', ''vue-router@^4'', ''socket.io-client@^2.4.0'']
       (spa_path self) (echo ''Installing dependencies...'' st))"

definition link_controller_files :: "env \<Rightarrow> SPAGenerator \<Rightarrow> state \<Rightarrow> error + state" where
  "link_controller_files e self st =
     (let st = echo ''Linking controller files...'' st;
          main_js = joinpath (app_path self) (spa_name self @ ''/src/main.js'')
      in if exists st main_js
         then write_text main_js
                (if add_tailwindcss self
                 then ''import './index.css';'' @ newline # MAIN_JS_BOILERPLATE e
                 else MAIN_JS_BOILERPLATE e) st
         else Inr (echo ''src/main.js not found!'' st))"

definition setup_proxy_options :: "env \<Rightarrow> SPAGenerator \<Rightarrow> state \<Rightarrow> error + state" where
  "setup_proxy_options e self st =
     (let vite_config_file = joinpath (spa_path self) ''vite.config.js'' in
      and_then (create_file e (joinpath (spa_path self) ''proxyOptions.js'')
          (PROXY_OPTIONS_BOILERPLATE e) st) (\<lambda>st.
      and_then (if \<not> exists st vite_config_file then touch vite_config_file st else Inr st) (\<lambda>st.
      write_text vite_config_file
        (str_replace ''{{name}}'' (spa_name self)
          (str_replace ''{{app}}'' (app self) (VITE_CONFIG_BOILERPLATE e))) st)))"

definition add_routing_rule_to_hooks :: "env \<Rightarrow> SPAGenerator \<Rightarrow> state \<Rightarrow> error + state" where
  "add_routing_rule_to_hooks e self st =
     (let hooks_py = joinpath (Path (''../apps/'' @ app self @ ''/'' @ app self)) ''hooks.py'' in
      and_then (read_text hooks_py st) (\<lambda>hooks.
      write_text hooks_py (updates_hooks hooks (spa_name self)) st))"

text \<open>
  \<^verbatim>\<open>data["scripts"][key] = text\<close> on what \<^verbatim>\<open>json.load\<close> returned: a KeyError
  without the key \<^verbatim>\<open>scripts\<close>, a TypeError where \<^verbatim>\<open>data\<close> or
  \<^verbatim>\<open>data["scripts"]\<close> is no dict. A dict keeps the order of its keys.
\<close>

definition set_script :: "string \<Rightarrow> string \<Rightarrow> json \<Rightarrow> error + json" where
  "set_script key text data =
     (case data of
        JObject items \<Rightarrow>
          (case map_of items ''scripts'' of
             None \<Rightarrow> Inl KeyError
           | Some (JObject scripts) \<Rightarrow>
               Inr (JObject (AList.update ''scripts''
                 (JObject (AList.update key (JString text) scripts)) items))
           | Some _ \<Rightarrow> Inl TypeError)
      | _ \<Rightarrow> Inl TypeError)"

definition load_json :: "env \<Rightarrow> path \<Rightarrow> state \<Rightarrow> error + json" where
  "load_json e p st =
     and_then (read_text p st) (\<lambda>t.
       case json_load e t of None \<Rightarrow> Inl JSONDecodeError | Some data \<Rightarrow> Inr data)"

definition update_package_json :: "env \<Rightarrow> SPAGenerator \<Rightarrow> state \<Rightarrow> error + state" where
  "update_package_json e self st =
     (let package_json_path = joinpath (spa_path self) ''package.json'';
          app_package_json_path = joinpath (app_path self) ''package.json''
      in if \<not> exists st package_json_path
         then Inr (echo ''package.json not found. Please manulally update the build command.'' st)
         else
           and_then (load_json e package_json_path st) (\<lambda>data.
           and_then (set_script ''build''
               (''vite build --base=/assets/'' @ app self @ ''/'' @ spa_name self
                  @ ''/ && yarn copy-html-entry'') data) (\<lambda>data.
           and_then (set_script ''copy-html-entry''
               (''cp ../'' @ app self @ ''/public/'' @ spa_name self @ ''/index.html''
                  @ '' ../'' @ app self @ ''/www/'' @ spa_name self @ ''.html'') data) (\<lambda>data.
           and_then (write_text package_json_path (json_dump e data) st) (\<lambda>st.
           if \<not> exists st app_package_json_path
           then
             and_then (run_process e [''npm'', ''init'', ''--yes''] (app_path self) st) (\<lambda>st.
             and_then (load_json e app_package_json_path st) (\<lambda>data.
             and_then (set_script ''dev'' (''cd '' @ spa_name self @ '' && yarn dev'') data) (\<lambda>data.
             and_then (set_script ''build'' (''cd '' @ spa_name self @ '' && yarn build'') data)
               (\<lambda>data.
             write_text app_package_json_path (json_dump e data) st))))
           else Inr st)))))"

definition create_www_directory :: "env \<Rightarrow> SPAGenerator \<Rightarrow> state \<Rightarrow> error + state" where
  "create_www_directory e self st =
     (let www_dir_path = joinpath (app_path self) (app self @ ''/www'') in
      if \<not> exists st www_dir_path then mkdir www_dir_path st else Inr st)"

definition generate_spa :: "env \<Rightarrow> SPAGenerator \<Rightarrow> state \<Rightarrow> error + state" where
  "generate_spa e self st =
     run_steps
       ([initialize_vue_vite_project e self,
         link_controller_files e self,
         setup_proxy_options e self,
         setup_vue_router e self,
         create_vue_files e self,
         update_package_json e self,
         create_www_directory e self]
        @ (if add_tailwindcss self then [setup_tailwindcss e self] else [])
        @ [add_routing_rule_to_hooks e self,
           \<lambda>st. Inr (echo ''to start the development server and visit: http://<site>:8080''
             (echo (''Run: cd '' @ path_str (absolute st (spa_path self)) @ '' && npm run dev'')
                st))])
       (echo ''Generating spa...'' st)"

section \<open>Declarations and list literals, as the specification speaks of them\<close>

text \<open>
  The specification speaks of the declarations of the variable in a text, of the list
  literal that a declaration assigns, and of the records read back from it. These
  notions are not part of the generator; they are defined here, following the
  specification: a declaration is a line that starts with the name of the variable,
  followed by blanks and one \<^verbatim>\<open>=\<close>; its value is the rest of the line. The lines of a
  text are what \<^verbatim>\<open>text.split("\n")\<close> gives.
\<close>

definition is_blank :: "char \<Rightarrow> bool" where
  "is_blank c \<longleftrightarrow> c = CHR '' '' \<or> c = CHR 0x09"

fun lines_of :: "string \<Rightarrow> string list" where
  "lines_of [] = [[]]"
| "lines_of (c # cs) =
     (if c = newline then [] # lines_of cs
      else (case lines_of cs of [] \<Rightarrow> [[c]] | l # ls \<Rightarrow> (c # l) # ls))"

definition decl_value :: "string \<Rightarrow> string option" where
  "decl_value l =
     (if prefix variable l
      then (case dropWhile is_blank (drop (length variable) l) of
              [] \<Rightarrow> None
            | c # r \<Rightarrow>
                if c = CHR ''='' \<and> \<not> prefix ''='' r then Some (dropWhile is_blank r) else None)
      else None)"

definition declarations :: "string \<Rightarrow> string list" where
  "declarations t = List.map_filter decl_value (lines_of t)"

text \<open>
  A routing rule is a record of two texts. \<open>routing_rule\<close> is the rule that the
  generator writes for an SPA name (the two values of the f-string of \<open>rule\<close>).
\<close>

record RoutingRule =
  from_route :: string
  to_route :: string

definition routing_rule :: "string \<Rightarrow> RoutingRule" where
  "routing_rule name = \<lparr>from_route = ''/'' @ name @ ''/<path:app_path>'', to_route = name\<rparr>"

text \<open>
  Reading a list literal of records back, as Python reads it: blanks between the
  tokens; a string literal in single or in double quotes, none of whose characters is
  its quote, a backslash, a line break or NUL, so that the literal stands for exactly
  the characters between the quotes; a record \<^verbatim>\<open>{'from_route': ..., 'to_route': ...}\<close>;
  a list of records separated by commas, the last one followed by a comma or not.
  Every other text is refused (\<open>None\<close>).
\<close>

definition skip :: "string \<Rightarrow> string" where
  "skip s = dropWhile is_blank s"

definition expect :: "char \<Rightarrow> string \<Rightarrow> string option" where
  "expect c s = (case skip s of [] \<Rightarrow> None | x # r \<Rightarrow> if x = c then Some r else None)"

definition lit_char :: "char \<Rightarrow> char \<Rightarrow> bool" where
  "lit_char q c \<longleftrightarrow> c \<noteq> q \<and> c \<notin> set [backslash, newline, CHR 0x0D, CHR 0x00]"

definition parse_str :: "string \<Rightarrow> (string \<times> string) option" where
  "parse_str s =
     (case skip s of
        [] \<Rightarrow> None
      | q # r \<Rightarrow>
          if q = quote \<or> q = CHR 0x22
          then (case dropWhile (lit_char q) r of
                  [] \<Rightarrow> None
                | c # r' \<Rightarrow> if c = q then Some (takeWhile (lit_char q) r, r') else None)
          else None)"

definition parse_record :: "string \<Rightarrow> (RoutingRule \<times> string) option" where
  "parse_record s =
     Option.bind (expect (CHR ''{'') s) (\<lambda>s.
     Option.bind (parse_str s) (\<lambda>(k1, s).
     Option.bind (expect (CHR '':'') s) (\<lambda>s.
     Option.bind (parse_str s) (\<lambda>(v1, s).
     Option.bind (expect (CHR '','') s) (\<lambda>s.
     Option.bind (parse_str s) (\<lambda>(k2, s).
     Option.bind (expect (CHR '':'') s) (\<lambda>s.
     Option.bind (parse_str s) (\<lambda>(v2, s).
     Option.bind (expect (CHR ''}'') s) (\<lambda>s.
     if k1 = ''from_route'' \<and> k2 = ''to_route''
     then Some (\<lparr>from_route = v1, to_route = v2\<rparr>, s) else None)))))))))"

function parse_items :: "string \<Rightarrow> RoutingRule list option" where
  "parse_items s =
     (case parse_record s of
        None \<Rightarrow> None
      | Some m \<Rightarrow>
          (case skip (snd m) of
             [] \<Rightarrow> None
           | c # s2 \<Rightarrow>
               if c = CHR '']'' then (if skip s2 = [] then Some [fst m] else None)
               else if c = CHR '','' then
                 (case skip s2 of
                    [] \<Rightarrow> None
                  | c' # s3 \<Rightarrow>
                      if c' = CHR '']'' then (if skip s3 = [] then Some [fst m] else None)
                      else map_option (Cons (fst m)) (parse_items (skip s2)))
               else None))"
  by pat_completeness auto
termination
proof (relation "measure length")
  show "wf (measure length)" by simp
next
  fix s :: string and m :: "RoutingRule \<times> string" and c :: char and s2 :: string
  assume rec: "parse_record s = Some m" and sep: "skip (snd m) = c # s2"
  have skip_le: "length (skip t) \<le> length t" for t
    by (simp add: skip_def length_dropWhile_le)
  have expect_lt: "length r < length t" if "expect x t = Some r" for x t r
  proof -
    from that have "skip t = x # r"
      by (auto simp: expect_def split: list.splits if_splits)
    with skip_le [of t] show ?thesis by simp
  qed
  have str_le: "length r \<le> length t" if "parse_str t = Some (v, r)" for t v r
  proof -
    from that obtain q u where u: "skip t = q # u" and d: "dropWhile (lit_char q) u = q # r"
      by (auto simp: parse_str_def split: list.splits if_splits)
    have "length (dropWhile (lit_char q) u) \<le> length u"
      by (rule length_dropWhile_le)
    with d have "length r \<le> length u" by simp
    with u skip_le [of t] show ?thesis by simp
  qed
  from rec obtain s1 where "expect (CHR ''{'') s = Some s1" and "length (snd m) \<le> length s1"
    by (auto simp: parse_record_def split: Option.bind_splits if_splits
          dest!: expect_lt str_le)
  with expect_lt [of "CHR ''{''" s s1] have "length (snd m) < length s" by simp
  moreover from sep skip_le [of "snd m"] have "length s2 < length (snd m)" by simp
  ultimately show "(skip s2, s) \<in> measure length"
    using skip_le [of s2] by simp
qed

declare parse_items.simps [simp del]

definition parse_rule_list :: "string \<Rightarrow> RoutingRule list option" where
  "parse_rule_list v =
     (case expect (CHR ''['') v of
        None \<Rightarrow> None
      | Some s \<Rightarrow>
          (case skip s of
             [] \<Rightarrow> None
           | c # s' \<Rightarrow>
               if c = CHR '']'' then (if skip s' = [] then Some [] else None)
               else parse_items (skip s)))"

section \<open>Notions used in the statements and proofs\<close>

text \<open>
  What \<^verbatim>\<open>\s?\<close> takes from the start of a text, and the texts it can take: nothing,
  or one character of the class.
\<close>

definition opt_space :: "string \<Rightarrow> string" where
  "opt_space s = (case s of [] \<Rightarrow> [] | c # cs \<Rightarrow> if is_space c then cs else s)"

definition opt_ws :: "string \<Rightarrow> bool" where
  "opt_ws w \<longleftrightarrow> (case w of [] \<Rightarrow> True | c # cs \<Rightarrow> cs = [] \<and> is_space c)"

text \<open>
  A plain text can stand between single quotes as it is: it holds no single quote, no
  backslash, no line break and no NUL.
\<close>

definition plain :: "string \<Rightarrow> bool" where
  "plain s \<longleftrightarrow> list_all (lit_char quote) s"

section \<open>Facts about str_replace\<close>

lemma str_replace_Nil: "old \<noteq> [] \<Longrightarrow> str_replace old new [] = []"
  by (subst str_replace.simps) simp

lemma str_replace_here:
  "old \<noteq> [] \<Longrightarrow> str_replace old new (old @ s) = new @ str_replace old new s"
  by (subst str_replace.simps) simp

lemma str_replace_step:
  "old \<noteq> [] \<Longrightarrow> \<not> prefix old (c # cs) \<Longrightarrow>
   str_replace old new (c # cs) = c # str_replace old new cs"
  by (subst str_replace.simps) simp

lemma prefix_append_sep:
  "c \<notin> set old \<Longrightarrow> prefix old (a @ c # b) \<longleftrightarrow> prefix old a"
proof
  assume c: "c \<notin> set old" and p: "prefix old (a @ c # b)"
  show "prefix old a"
  proof (cases "length old \<le> length a")
    case True
    with p show ?thesis by (auto simp: prefix_def append_eq_append_conv2 dest: arg_cong[where f=length])
  next
    case False
    from p obtain z where "a @ c # b = old @ z" by (auto simp: prefix_def)
    with False obtain u where "old = a @ c # u"
      by (auto simp: append_eq_append_conv2 Cons_eq_append_conv)
    with c show ?thesis by simp
  qed
next
  assume "prefix old a" then show "prefix old (a @ c # b)" by (rule prefix_prefix)
qed

lemma str_replace_sep:
  assumes "old \<noteq> []" "c \<notin> set old"
  shows "str_replace old new (a @ c # b) = str_replace old new a @ c # str_replace old new b"
  using assms
proof (induction old new a rule: str_replace.induct)
  case (1 old new s)
  show ?case
  proof (cases "prefix old s")
    case True
    then obtain z where z: "s = old @ z" by (auto simp: prefix_def)
    with 1 have "str_replace old new (z @ c # b) = str_replace old new z @ c # str_replace old new b"
      by simp
    with z 1 show ?thesis
      using str_replace_here [of old new "z @ c # b"] str_replace_here [of old new z] by simp
  next
    case False
    show ?thesis
    proof (cases s)
      case Nil
      with 1 have "\<not> prefix old (c # b)" by (cases old) auto
      with Nil 1 show ?thesis by (simp add: str_replace_step str_replace_Nil)
    next
      case (Cons x xs)
      with False 1 have np: "\<not> prefix old ((x # xs) @ c # b)"
        using prefix_append_sep [of c old "x # xs" b] by simp
      from 1 False Cons have "str_replace old new (xs @ c # b)
          = str_replace old new xs @ c # str_replace old new b" by simp
      with np Cons False 1 show ?thesis
        using str_replace_step [of old x "xs @ c # b" new] str_replace_step [of old x xs new]
        by simp
    qed
  qed
qed

lemma str_replace_absent:
  "old \<noteq> [] \<Longrightarrow> \<not> sublist old s \<Longrightarrow> str_replace old new s = s"
proof (induction s)
  case Nil
  then show ?case by (simp add: str_replace_Nil)
next
  case (Cons c cs)
  then have "\<not> prefix old (c # cs)" "\<not> sublist old cs"
    by (auto simp: sublist_Cons_right)
  with Cons show ?case by (simp add: str_replace_step)
qed

section \<open>Facts about the matcher on this pattern\<close>

lemma first_some_SomeD:
  "first_some (map f ks) = Some x \<Longrightarrow> \<exists>k \<in> set ks. f k = Some x"
proof (induction ks)
  case Nil
  then show ?case by simp
next
  case (Cons k ks)
  then show ?case by (cases "f k") auto
qed

lemma first_some_exists:
  "k \<in> set ks \<Longrightarrow> f k \<noteq> None \<Longrightarrow> first_some (map f ks) \<noteq> None"
proof (induction ks)
  case Nil
  then show ?case by simp
next
  case (Cons j ks)
  then show ?case by (cases "f j") auto
qed

lemma re_match_literal:
  "re_match (map (\<lambda>c. One (Lit c)) p @ ns) s g =
     (if prefix p s then re_match ns (drop (length p) s) g else None)"
proof (induction p arbitrary: s)
  case Nil
  then show ?case by simp
next
  case (Cons a p)
  then show ?case by (cases s) auto
qed

lemma re_match_optional:
  "\<not> is_space a \<Longrightarrow>
   re_match (Optional Space # One (Lit a) # ns) s g = re_match (One (Lit a) # ns) (opt_space s) g"
  by (cases s) (auto simp: opt_space_def split: option.splits list.splits)

lemma re_match_group:
  "re_match [GroupPlus AnyChar, One (Lit (CHR '']''))] s g = Some (g', r) \<Longrightarrow>
   s = g' @ CHR '']'' # r \<and> g' \<noteq> [] \<and> newline \<notin> set g'"
proof -
  assume "re_match [GroupPlus AnyChar, One (Lit (CHR '']''))] s g = Some (g', r)"
  then have "first_some (map (\<lambda>k. re_match [One (Lit (CHR '']''))] (drop k s) (take k s))
      (rev [1 ..< Suc (length (takeWhile (atom_matches AnyChar) s))])) = Some (g', r)"
    by (simp only: re_match.simps)
  from first_some_SomeD [OF this]
  obtain k where k: "k \<in> set (rev [1 ..< Suc (length (takeWhile (atom_matches AnyChar) s))])"
    and m: "re_match [One (Lit (CHR '']''))] (drop k s) (take k s) = Some (g', r)"
    by blast
  from m have d: "drop k s = CHR '']'' # r" and g: "g' = take k s"
    by (auto split: list.splits if_splits)
  from k have k1: "1 \<le> k" and k2: "k \<le> length (takeWhile (atom_matches AnyChar) s)"
    by auto
  from d have "k < length s" by (cases "k < length s") auto
  have "s = take k s @ drop k s" by simp
  with d g have s: "s = g' @ CHR '']'' # r" by simp
  from k1 g \<open>k < length s\<close> have ne: "g' \<noteq> []" by auto
  from k2 have "take k s = take k (takeWhile (atom_matches AnyChar) s)"
    by (metis append_eq_conv_conj takeWhile_dropWhile_id take_take min.absorb1 take_append
          diff_is_0_eq' take_0 append_Nil2)
  then have "set g' \<subseteq> set (takeWhile (atom_matches AnyChar) s)"
    using g by (metis set_take_subset)
  then have "newline \<notin> set g'"
    using set_takeWhileD [of newline "atom_matches AnyChar" s] by auto
  with s ne show ?thesis by simp
qed

lemma re_match_group_exists:
  assumes "body \<noteq> []" "newline \<notin> set body"
  shows "re_match [GroupPlus AnyChar, One (Lit (CHR '']''))] (body @ CHR '']'' # post) g \<noteq> None"
proof -
  let ?s = "body @ CHR '']'' # post"
  let ?f = "\<lambda>k. re_match [One (Lit (CHR '']''))] (drop k ?s) (take k ?s)"
  have "takeWhile (atom_matches AnyChar) ?s = body @ takeWhile (atom_matches AnyChar) (CHR '']'' # post)"
    using assms by (intro takeWhile_append2) auto
  then have "length body \<le> length (takeWhile (atom_matches AnyChar) ?s)" by simp
  with assms have "length body \<in> set (rev [1 ..< Suc (length (takeWhile (atom_matches AnyChar) ?s))])"
    by (cases body) auto
  moreover have "?f (length body) \<noteq> None" by simp
  ultimately have "first_some (map ?f (rev [1 ..< Suc (length (takeWhile (atom_matches AnyChar) ?s))])) \<noteq> None"
    by (rule first_some_exists)
  then show ?thesis by simp
qed

lemma match_at_unfold:
  "match_at s =
     (if prefix variable s
      then (case opt_space (drop (length variable) s) of
              [] \<Rightarrow> None
            | c # s1 \<Rightarrow>
                if c = CHR ''='' then
                  (case opt_space s1 of
                     [] \<Rightarrow> None
                   | c' # s2 \<Rightarrow>
                       if c' = CHR ''[''
                       then re_match [GroupPlus AnyChar, One (Lit (CHR '']''))] s2 []
                       else None)
                else None)
      else None)"
proof -
  have e: "\<not> is_space (CHR ''='')" and b: "\<not> is_space (CHR ''['')"
    by (simp_all add: is_space_def)
  show ?thesis
    unfolding match_at_def pattern_def re_match_literal
    by (simp only: re_match_optional [OF e] re_match_optional [OF b] re_match.simps(2)
          atom_matches.simps split: list.splits if_splits)
qed

lemma sublist_sep:
  assumes "c \<notin> set old"
  shows "sublist old (a @ c # b) \<longleftrightarrow> sublist old a \<or> sublist old b"
proof
  assume "sublist old (a @ c # b)"
  then consider "sublist old a" | "sublist old (c # b)"
    | xs1 xs2 where "old = xs1 @ xs2" "suffix xs1 a" "prefix xs2 (c # b)"
    by (auto simp: sublist_append)
  then show "sublist old a \<or> sublist old b"
  proof cases
    case 1
    then show ?thesis by simp
  next
    case 2
    with assms show ?thesis by (cases old) (auto simp: sublist_Cons_right)
  next
    case 3
    with assms have "xs2 = []" by (cases xs2) auto
    with 3 show ?thesis by auto
  qed
next
  assume "sublist old a \<or> sublist old b"
  then show "sublist old (a @ c # b)"
    by (auto simp: sublist_append sublist_Cons_right)
qed

text \<open>The group is greedy: the match ends at the last closing bracket of the line.\<close>

lemma first_some_down:
  "first_some (map f (rev [1 ..< Suc n])) = Some x \<Longrightarrow>
   \<exists>k. 1 \<le> k \<and> k \<le> n \<and> f k = Some x \<and> (\<forall>j. k < j \<and> j \<le> n \<longrightarrow> f j = None)"
proof (induction n)
  case 0
  then show ?case by simp
next
  case (Suc n)
  show ?case
  proof (cases "f (Suc n)")
    case None
    with Suc.prems have "first_some (map f (rev [1 ..< Suc n])) = Some x" by simp
    from Suc.IH [OF this] obtain k where k: "1 \<le> k" "k \<le> n" "f k = Some x"
      "\<forall>j. k < j \<and> j \<le> n \<longrightarrow> f j = None" by blast
    with None have "\<forall>j. k < j \<and> j \<le> Suc n \<longrightarrow> f j = None"
      by (auto simp: le_Suc_eq)
    with k show ?thesis by (intro exI [of _ k]) simp
  next
    case (Some y)
    with Suc.prems have "f (Suc n) = Some x" by simp
    then show ?thesis by (intro exI [of _ "Suc n"]) auto
  qed
qed

lemma re_match_group_greedy:
  assumes m: "re_match [GroupPlus AnyChar, One (Lit (CHR '']''))] (body @ CHR '']'' # post) g
      = Some (g', r)"
    and body: "body \<noteq> []" "newline \<notin> set body"
  shows "suffix r post"
proof -
  let ?s = "body @ CHR '']'' # post"
  let ?n = "length (takeWhile (atom_matches AnyChar) ?s)"
  let ?f = "\<lambda>k. re_match [One (Lit (CHR '']''))] (drop k ?s) (take k ?s)"
  from m have "first_some (map ?f (rev [1 ..< Suc ?n])) = Some (g', r)"
    by (simp only: re_match.simps)
  from first_some_down [OF this] obtain k where k: "1 \<le> k" "k \<le> ?n" "?f k = Some (g', r)"
    and top: "\<forall>j. k < j \<and> j \<le> ?n \<longrightarrow> ?f j = None" by blast
  have "takeWhile (atom_matches AnyChar) ?s = body @ takeWhile (atom_matches AnyChar) (CHR '']'' # post)"
    using body by (intro takeWhile_append2) auto
  then have le: "length body \<le> ?n" by simp
  have "?f (length body) \<noteq> None" by simp
  with top le have "length body \<le> k" by (meson not_le_imp_less)
  have "t = CHR '']'' # r" if "re_match [One (Lit (CHR '']''))] t h = Some (g', r)" for t h
    using that by (auto split: list.splits if_splits)
  from this [OF k(3)] have "drop k ?s = CHR '']'' # r" .
  then have "tl (drop k ?s) = r" by simp
  then have "r = drop (Suc k) ?s" by (simp only: drop_Suc tl_drop)
  with \<open>length body \<le> k\<close> have "r = drop (k - length body) post"
    by (simp add: Suc_diff_le)
  then show ?thesis by (simp add: suffix_drop)
qed

lemma opt_space_ws:
  "opt_ws w \<Longrightarrow> \<not> is_space c \<Longrightarrow> opt_space (w @ c # s) = c # s"
  by (auto simp: opt_ws_def opt_space_def split: list.splits)

lemma match_at_decl:
  assumes "opt_ws w1" "opt_ws w2" "body \<noteq> []" "newline \<notin> set body"
  shows "\<exists>g r. match_at (variable @ w1 @ CHR ''='' # w2 @ CHR ''['' # body @ CHR '']'' # post)
             = Some (g, r)
           \<and> g @ CHR '']'' # r = body @ CHR '']'' # post \<and> suffix r post"
proof -
  have e: "\<not> is_space (CHR ''='')" and b: "\<not> is_space (CHR ''['')"
    by (simp_all add: is_space_def)
  let ?m = "re_match [GroupPlus AnyChar, One (Lit (CHR '']''))] (body @ CHR '']'' # post) []"
  have "match_at (variable @ w1 @ CHR ''='' # w2 @ CHR ''['' # body @ CHR '']'' # post) = ?m"
    by (simp add: match_at_unfold opt_space_ws [OF assms(1) e] opt_space_ws [OF assms(2) b]
          del: re_match.simps)
  moreover from re_match_group_exists [OF assms(3,4)] obtain g r where m: "?m = Some (g, r)"
    by fastforce
  moreover from re_match_group [OF m] have "g @ CHR '']'' # r = body @ CHR '']'' # post" by simp
  moreover from re_match_group_greedy [OF m assms(3,4)] have "suffix r post" .
  ultimately show ?thesis by simp
qed

lemma match_at_no_variable: "\<not> prefix variable s \<Longrightarrow> match_at s = None"
  by (simp add: match_at_unfold)

section \<open>Facts about search, sub and the text written back\<close>

lemma no_straddle:
  assumes "\<not> sublist variable p" "x \<notin> set (tl variable)" "q \<noteq> []" "suffix q p"
  shows "\<not> prefix variable (q @ x # X)"
proof
  assume pre: "prefix variable (q @ x # X)"
  from assms(3) obtain q0 q' where q: "q = q0 # q'" by (cases q) auto
  have v: "variable = hd variable # tl variable" by (simp add: variable_def)
  from pre q v have "q0 = hd variable" "prefix (tl variable) (q' @ x # X)"
    by (metis Cons_prefix_Cons append_Cons)+
  with assms(2) have "prefix (tl variable) q'" by (simp add: prefix_append_sep)
  with \<open>q0 = hd variable\<close> q v have "prefix variable q" by (metis Cons_prefix_Cons)
  then have "sublist variable q" by (rule prefix_imp_sublist)
  with assms(4) have "sublist variable p"
    by (meson sublist_order.order_trans suffix_imp_sublist)
  with assms(1) show False by simp
qed

lemma search_Nil: "search [] = None"
  by (simp add: match_at_unfold variable_def)

lemma search_no_variable: "\<not> sublist variable s \<Longrightarrow> search s = None"
proof (induction s)
  case Nil
  show ?case by (rule search_Nil)
next
  case (Cons c cs)
  then have "\<not> prefix variable (c # cs)" "\<not> sublist variable cs"
    by (auto simp: sublist_Cons_right)
  with Cons.IH show ?case by (simp add: match_at_no_variable)
qed

lemma search_after:
  assumes "\<not> sublist variable p" "x \<notin> set (tl variable)"
  shows "search (p @ x # X) =
     (case search (x # X) of None \<Rightarrow> None | Some (q, g, r) \<Rightarrow> Some (p @ q, g, r))"
  using assms(1)
proof (induction p)
  case Nil
  then show ?case by (simp split: option.splits)
next
  case (Cons c p)
  then have "\<not> sublist variable p" by (auto simp: sublist_Cons_right)
  from no_straddle [OF Cons.prems assms(2), of "c # p" X]
  have "match_at ((c # p) @ x # X) = None" by (simp add: match_at_no_variable)
  with Cons.IH [OF \<open>\<not> sublist variable p\<close>] show ?case
    by (simp split: option.splits)
qed

lemma sub_None: "search s = None \<Longrightarrow> sub s = s"
  by (subst sub.simps) simp

lemma sub_Some: "search s = Some (p, g, r) \<Longrightarrow> sub s = p @ expand g @ sub r"
  by (subst sub.simps) simp

lemma placeholder_props:
  "placeholder \<noteq> []" "CHR ''w'' \<notin> set placeholder" "CHR ''['' \<notin> set placeholder"
  "CHR '']'' \<notin> set placeholder" "newline \<notin> set placeholder"
  "\<not> prefix placeholder (CHR '','' # s)" "\<not> prefix placeholder (CHR '' '' # s)"
  "\<not> prefix placeholder (CHR '']'' # s)"
  by (simp_all add: placeholder_def newline_def)

lemma str_replace_name:
  "str_replace placeholder new ''ebsite_route_rules = '' = ''ebsite_route_rules = ''"
  by (rule str_replace_absent) (simp_all add: placeholder_def sublist_Cons_right)

lemma str_replace_open:
  "str_replace placeholder new (p @ ''website_route_rules = ['' @ t) =
     str_replace placeholder new p @ ''website_route_rules = ['' @ str_replace placeholder new t"
proof -
  have "p @ ''website_route_rules = ['' @ t = p @ CHR ''w'' # (''ebsite_route_rules = '' @ CHR ''['' # t)"
    by simp
  then show ?thesis
    by (simp only: str_replace_sep [OF placeholder_props(1,2)]
          str_replace_sep [OF placeholder_props(1,3)] str_replace_name) simp
qed

lemma updates_no_match:
  assumes "search hooks = None"
  shows "updates_hooks hooks name =
     str_replace placeholder (rule name) hooks @ newline # ''website_route_rules = ['' @ rule name @ '',]''"
proof -
  have "rules hooks = (hooks @ [newline]) @ ''website_route_rules = ['' @ (placeholder @ '',]'')"
    using assms by (simp add: rules_def)
  then have "updates_hooks hooks name = str_replace placeholder (rule name) (hooks @ [newline])
      @ ''website_route_rules = ['' @ str_replace placeholder (rule name) (placeholder @ '',]'')"
    by (simp only: updates_hooks_def str_replace_open)
  moreover have "str_replace placeholder (rule name) (hooks @ [newline])
      = str_replace placeholder (rule name) hooks @ [newline]"
    using str_replace_sep [OF placeholder_props(1,5), of "rule name" hooks "[]"]
    by (simp add: str_replace_Nil placeholder_props)
  moreover have "str_replace placeholder (rule name) (placeholder @ '',]'') = rule name @ '',]''"
    by (simp add: str_replace_here str_replace_step str_replace_Nil placeholder_props)
  ultimately show ?thesis by simp
qed

lemma updates_match:
  assumes "search hooks = Some (p, g, r)"
  shows "updates_hooks hooks name =
     str_replace placeholder (rule name) p @ ''website_route_rules = ['' @ rule name @ '', ''
       @ str_replace placeholder (rule name) (g @ CHR '']'' # sub r)"
proof -
  have "rules hooks = p @ ''website_route_rules = ['' @ (placeholder @ '', '' @ g @ CHR '']'' # sub r)"
    using assms by (simp add: rules_def sub_Some expand_def)
  then have "updates_hooks hooks name = str_replace placeholder (rule name) p
      @ ''website_route_rules = ['' @ str_replace placeholder (rule name) (placeholder @ '', '' @ g @ CHR '']'' # sub r)"
    by (simp only: updates_hooks_def str_replace_open)
  moreover have "str_replace placeholder (rule name) (placeholder @ '', '' @ g @ CHR '']'' # sub r)
      = rule name @ '', '' @ str_replace placeholder (rule name) (g @ CHR '']'' # sub r)"
    by (simp add: str_replace_here str_replace_step placeholder_props)
  ultimately show ?thesis by simp
qed

section \<open>Facts about reading records back\<close>

lemma takeWhile_all: "list_all P xs \<Longrightarrow> takeWhile P (xs @ ys) = xs @ takeWhile P ys"
  by (simp add: list_all_iff)

lemma dropWhile_all: "list_all P xs \<Longrightarrow> dropWhile P (xs @ ys) = dropWhile P ys"
  by (simp add: list_all_iff)

lemma parse_record_rule:
  assumes "plain name"
  shows "parse_record (rule name @ rest) = Some (routing_rule name, rest)"
  using assms
  by (simp add: plain_def parse_record_def expect_def parse_str_def skip_def is_blank_def
        lit_char_def rule_def quote_def routing_rule_def backslash_def newline_def
        takeWhile_all dropWhile_all)

lemma parse_rule_list_single:
  assumes "plain name"
  shows "parse_rule_list (''['' @ rule name @ '',]'') = Some [routing_rule name]"
proof -
  have "skip (rule name @ t) = rule name @ t" for t
    by (simp add: skip_def rule_def is_blank_def)
  moreover have "parse_items (rule name @ '',]'') = Some [routing_rule name]"
    by (subst parse_items.simps)
      (simp add: parse_record_rule [OF assms] skip_def is_blank_def)
  moreover have "rule name @ t = CHR ''{'' # tl (rule name @ t)" for t
    by (simp add: rule_def)
  ultimately show ?thesis
    by (simp add: parse_rule_list_def expect_def skip_def is_blank_def rule_def)
qed

lemma parse_rule_list_front:
  assumes "plain name" "parse_rule_list (CHR ''['' # v) = Some rs"
  shows "parse_rule_list (''['' @ rule name @ '', '' @ v) = Some (routing_rule name # rs)"
proof -
  from assms(2) obtain c s' where v: "skip v = c # s'"
    and rs: "if c = CHR '']'' then skip s' = [] \<and> rs = [] else parse_items (skip v) = Some rs"
    by (auto simp: parse_rule_list_def expect_def skip_def is_blank_def
          split: list.splits if_splits)
  have sk: "skip (CHR '' '' # v) = skip v" by (simp add: skip_def is_blank_def)
  have "parse_items (rule name @ '', '' @ v) = Some (routing_rule name # rs)"
    using v rs
    by (subst parse_items.simps)
      (auto simp: parse_record_rule [OF assms(1)] sk skip_def [of "CHR '','' # t" for t] is_blank_def)
  moreover have "skip (rule name @ t) = rule name @ t" for t
    by (simp add: skip_def rule_def is_blank_def)
  moreover have "rule name @ t = CHR ''{'' # tl (rule name @ t)" for t
    by (simp add: rule_def)
  ultimately show ?thesis
    by (simp add: parse_rule_list_def expect_def skip_def is_blank_def rule_def)
qed

section \<open>Facts about lines and declarations\<close>

lemma lines_of_not_Nil: "lines_of s \<noteq> []"
  by (induction s) (auto split: list.splits)

lemma lines_of_append:
  "lines_of (a @ newline # b) = lines_of a @ lines_of b"
  by (induction a) (auto split: list.splits simp: lines_of_not_Nil)

lemma lines_of_single: "newline \<notin> set l \<Longrightarrow> lines_of l = [l]"
  by (induction l) auto

lemma declarations_append:
  "declarations (a @ newline # b) = declarations a @ declarations b"
  by (simp add: declarations_def lines_of_append List.map_filter_def)

lemma decl_value_canonical:
  "decl_value (''website_route_rules = ['' @ t) = Some (CHR ''['' # t)"
  by (simp add: decl_value_def variable_def is_blank_def)

lemma declarations_line:
  "newline \<notin> set t \<Longrightarrow> declarations (''website_route_rules = ['' @ t) = [CHR ''['' # t]"
  using decl_value_canonical [of t]
  by (simp add: declarations_def lines_of_single [of "''website_route_rules = ['' @ t"]
        newline_def map_filter_simps del: append.simps)

lemma newline_rule: "newline \<notin> set name \<Longrightarrow> newline \<notin> set (rule name)"
  by (simp add: rule_def newline_def quote_def)

section \<open>Facts about the two shapes of input\<close>

lemma sublist_trans: "sublist xs ys \<Longrightarrow> sublist ys zs \<Longrightarrow> sublist xs zs"
  by (rule sublist_order.order_trans)

lemma lines_hd_prefix: "prefix (hd (lines_of s)) s"
  by (induction s) (auto split: list.splits)

lemma lines_sublist: "l \<in> set (lines_of s) \<Longrightarrow> sublist l s"
proof (induction s arbitrary: l)
  case Nil
  then show ?case by simp
next
  case (Cons c cs)
  show ?case
  proof (cases "c = newline")
    case True
    with Cons.prems have "l = [] \<or> l \<in> set (lines_of cs)" by simp
    with Cons.IH show ?thesis by (auto simp: sublist_Cons_right)
  next
    case False
    obtain l0 ls where ls: "lines_of cs = l0 # ls"
      using lines_of_not_Nil [of cs] by (cases "lines_of cs") auto
    with False Cons.prems have "l = c # l0 \<or> l \<in> set ls" by simp
    then show ?thesis
    proof
      assume "l = c # l0"
      moreover from lines_hd_prefix [of cs] ls have "prefix l0 cs" by simp
      ultimately show ?thesis by (simp add: sublist_Cons_right)
    next
      assume "l \<in> set ls"
      with ls have "l \<in> set (lines_of cs)" by simp
      with Cons.IH show ?thesis by (auto simp: sublist_Cons_right)
    qed
  qed
qed

lemma decl_value_prefix: "decl_value l = Some v \<Longrightarrow> prefix variable l"
  by (simp add: decl_value_def split: if_splits)

lemma declarations_no_variable:
  assumes "\<not> sublist variable s"
  shows "declarations s = []"
proof -
  have "decl_value l = None" if "l \<in> set (lines_of s)" for l
  proof (cases "decl_value l")
    case None
    then show ?thesis .
  next
    case (Some v)
    then have "sublist variable l" by (intro prefix_imp_sublist decl_value_prefix)
    with lines_sublist [OF that] assms show ?thesis by (auto dest: sublist_trans)
  qed
  then show ?thesis
    by (simp add: declarations_def List.map_filter_def filter_empty_conv)
qed

lemma declarations_one_line:
  "newline \<notin> set l \<Longrightarrow>
   declarations l = (case decl_value l of None \<Rightarrow> [] | Some v \<Rightarrow> [v])"
  by (simp add: declarations_def lines_of_single List.map_filter_def split: option.splits)

lemma declarations_context:
  assumes "\<not> sublist variable pre" "\<not> sublist variable post"
    and "pre = [] \<or> last pre = newline" and "newline \<notin> set mid"
  shows "declarations (pre @ mid @ post) =
     (case decl_value (mid @ takeWhile (\<lambda>c. c \<noteq> newline) post) of None \<Rightarrow> [] | Some v \<Rightarrow> [v])"
proof -
  define l where "l = takeWhile (\<lambda>c. c \<noteq> newline) post"
  define d where "d = dropWhile (\<lambda>c. c \<noteq> newline) post"
  have post: "post = l @ d" by (simp add: l_def d_def)
  have nl: "newline \<notin> set (mid @ l)"
    using assms(4) by (auto simp: l_def dest: set_takeWhileD)
  have tail: "declarations (mid @ post) =
     (case decl_value (mid @ l) of None \<Rightarrow> [] | Some v \<Rightarrow> [v])"
  proof (cases d)
    case Nil
    with post have "mid @ post = mid @ l" by simp
    with declarations_one_line [OF nl] show ?thesis by (simp only:)
  next
    case (Cons c post')
    have "d = [] \<or> hd d = newline"
      unfolding d_def using hd_dropWhile [of "\<lambda>c. c \<noteq> newline" post] by blast
    with Cons have "c = newline" by simp
    with Cons post have p: "post = l @ newline # post'" by simp
    have "sublist post' ((l @ [newline]) @ post')" by (rule sublist_append_leftI)
    with p have "sublist post' post" by simp
    with assms(2) have "\<not> sublist variable post'" by (auto dest: sublist_trans)
    then have "declarations post' = []" by (rule declarations_no_variable)
    moreover have "declarations ((mid @ l) @ newline # post')
        = declarations (mid @ l) @ declarations post'"
      by (rule declarations_append)
    ultimately have "declarations (mid @ post) = declarations (mid @ l)"
      using p by simp
    with declarations_one_line [OF nl] show ?thesis by (simp only:)
  qed
  from assms(3) show ?thesis
  proof
    assume "pre = []"
    with tail show ?thesis by (simp add: l_def)
  next
    assume l: "last pre = newline"
    show ?thesis
    proof (cases "pre = []")
      case True
      with tail show ?thesis by (simp add: l_def)
    next
      case False
      with l have p: "butlast pre @ [newline] = pre"
        using append_butlast_last_id [of pre] by simp
      have "sublist (butlast pre) (butlast pre @ [newline])" by (rule sublist_append_rightI)
      with p have "sublist (butlast pre) pre" by simp
      with assms(1) have "declarations (butlast pre) = []"
        by (auto dest: sublist_trans intro: declarations_no_variable)
      moreover have "declarations (butlast pre @ newline # (mid @ post))
          = declarations (butlast pre) @ declarations (mid @ post)"
        by (rule declarations_append)
      with p have "declarations (pre @ mid @ post)
          = declarations (butlast pre) @ declarations (mid @ post)"
        by (metis append_Cons append_Nil append_assoc)
      ultimately show ?thesis by (simp add: tail l_def)
    qed
  qed
qed

lemma updates_fresh:
  assumes "search hooks = None" "\<not> sublist placeholder hooks"
  shows "updates_hooks hooks name = hooks @ newline # ''website_route_rules = ['' @ rule name @ '',]''"
  by (simp add: updates_no_match [OF assms(1)] str_replace_absent [OF _ assms(2)] placeholder_props)

lemma declarations_fresh:
  assumes "declarations hooks = []" "newline \<notin> set name"
  shows "declarations (hooks @ newline # ''website_route_rules = ['' @ rule name @ '',]'')
     = [''['' @ rule name @ '',]'']"
proof -
  from assms(2) have "newline \<notin> set (rule name @ '',]'')"
    by (simp add: newline_rule) (simp add: newline_def)
  from declarations_line [OF this] assms(1) show ?thesis
    by (simp only: declarations_append) simp
qed

lemma updates_decl:
  assumes pre: "\<not> sublist variable pre" and post: "\<not> sublist variable post"
    and ws: "opt_ws w1" "opt_ws w2" and body: "body \<noteq> []" "newline \<notin> set body"
    and p1: "\<not> sublist placeholder pre"
    and p2: "\<not> sublist placeholder (body @ CHR '']'' # post)"
  shows "updates_hooks (pre @ variable @ w1 @ CHR ''='' # w2 @ CHR ''['' # body @ CHR '']'' # post) name
     = pre @ ''website_route_rules = ['' @ rule name @ '', '' @ body @ CHR '']'' # post"
proof -
  let ?X = "variable @ w1 @ CHR ''='' # w2 @ CHR ''['' # body @ CHR '']'' # post"
  from match_at_decl [OF ws body, of post] obtain g r where
    m: "match_at ?X = Some (g, r)" and eq: "g @ CHR '']'' # r = body @ CHR '']'' # post"
    and suf: "suffix r post" by blast
  have X: "?X = CHR ''w'' # tl ?X" by (simp add: variable_def)
  have w: "CHR ''w'' \<notin> set (tl variable)" by (simp add: variable_def)
  have "search ?X = Some ([], g, r)"
    using m by (subst X, simp only: search.simps) (simp flip: X)
  with search_after [OF pre w, of "tl ?X"] X have s: "search (pre @ ?X) = Some (pre, g, r)"
    by simp
  from suf post have "\<not> sublist variable r"
    by (auto dest: sublist_trans suffix_imp_sublist)
  then have "sub r = r" by (simp add: search_no_variable sub_None)
  from updates_match [OF s, of name] \<open>sub r = r\<close> eq
  have "updates_hooks (pre @ ?X) name = str_replace placeholder (rule name) pre
      @ ''website_route_rules = ['' @ rule name @ '', ''
      @ str_replace placeholder (rule name) (body @ CHR '']'' # post)"
    by simp
  then show ?thesis
    by (simp add: str_replace_absent [OF _ p1] str_replace_absent [OF _ p2] placeholder_props)
qed

lemma declarations_front:
  assumes "\<not> sublist variable pre" "\<not> sublist variable post"
    and "pre = [] \<or> last pre = newline" and "newline \<notin> set name" "newline \<notin> set body"
  shows "declarations (pre @ ''website_route_rules = ['' @ rule name @ '', '' @ body @ CHR '']'' # post)
     = [''['' @ rule name @ '', '' @ body @ CHR '']'' # takeWhile (\<lambda>c. c \<noteq> newline) post]"
proof -
  let ?mid = "''website_route_rules = ['' @ rule name @ '', '' @ body @ '']''"
  have nl: "newline \<notin> set ?mid"
    using assms(4,5) by (simp add: newline_rule) (simp add: newline_def)
  have "decl_value (?mid @ t) = Some (''['' @ rule name @ '', '' @ body @ CHR '']'' # t)" for t
    using decl_value_canonical [of "rule name @ '', '' @ body @ CHR '']'' # t"] by simp
  with declarations_context [OF assms(1,2,3) nl] show ?thesis by simp
qed

lemma placeholder_rule:
  assumes "\<not> sublist placeholder name"
  shows "\<not> sublist placeholder (rule name)"
proof -
  have q: "quote \<notin> set placeholder" "CHR ''/'' \<notin> set placeholder"
    by (simp_all add: placeholder_def quote_def)
  have c: "\<not> sublist placeholder ''{'from_route': ''"
    "\<not> sublist placeholder ''<path:app_path>', 'to_route': ''" "\<not> sublist placeholder ''}''"
    by (simp_all add: placeholder_def sublist_Cons_right)
  have "rule name = ''{'from_route': '' @ quote # ([] @ CHR ''/'' # (name @ CHR ''/'' #
      (''<path:app_path>', 'to_route': '' @ quote # (name @ quote # ''}''))))"
    by (simp add: rule_def quote_def)
  then show ?thesis
    using assms c
    by (simp only: sublist_sep [OF q(1)] sublist_sep [OF q(2)]) (simp add: placeholder_def)
qed

lemma plain_newline: "plain name \<Longrightarrow> newline \<notin> set name"
  by (auto simp: plain_def list_all_iff lit_char_def)

lemma opt_ws_space: "opt_ws '' ''"
  by (simp add: opt_ws_def is_space_def)

lemma placeholder_record_body:
  assumes "\<not> sublist placeholder name" "\<not> sublist placeholder t"
  shows "\<not> sublist placeholder (rule name @ '', '' @ t)"
proof -
  have c: "CHR '','' \<notin> set placeholder" "CHR '' '' \<notin> set placeholder"
    by (simp_all add: placeholder_def)
  have "sublist placeholder (rule name @ CHR '','' # ([] @ CHR '' '' # t)) \<longleftrightarrow>
      sublist placeholder (rule name) \<or> sublist placeholder [] \<or> sublist placeholder t"
    by (simp only: sublist_sep [OF c(1)] sublist_sep [OF c(2)])
  with placeholder_rule [OF assms(1)] assms(2) show ?thesis
    by (simp add: placeholder_props)
qed

lemma twice_front:
  assumes name: "newline \<notin> set name" "\<not> sublist placeholder name"
    and pre: "\<not> sublist variable pre" and post: "\<not> sublist variable post"
    and ws: "opt_ws w1" "opt_ws w2" and body: "body \<noteq> []" "newline \<notin> set body"
    and p1: "\<not> sublist placeholder pre"
    and p2: "\<not> sublist placeholder (body @ CHR '']'' # post)"
  shows "updates_hooks
       (updates_hooks (pre @ variable @ w1 @ CHR ''='' # w2 @ CHR ''['' # body @ CHR '']'' # post) name)
       name
     = pre @ ''website_route_rules = ['' @ rule name @ '', '' @ rule name @ '', '' @ body @ CHR '']'' # post"
proof -
  have first: "updates_hooks (pre @ variable @ w1 @ CHR ''='' # w2 @ CHR ''['' # body @ CHR '']'' # post) name
      = pre @ variable @ '' '' @ CHR ''='' # '' '' @ CHR ''['' # (rule name @ '', '' @ body)
          @ CHR '']'' # post"
    using updates_decl [OF pre post ws body p1 p2, of name] by (simp add: variable_def)
  have b: "rule name @ '', '' @ body \<noteq> []" "newline \<notin> set (rule name @ '', '' @ body)"
    using name(1) body(2) by (simp_all add: newline_rule) (simp add: newline_def)
  have q: "\<not> sublist placeholder ((rule name @ '', '' @ body) @ CHR '']'' # post)"
    using placeholder_record_body [OF name(2) p2] by simp
  show ?thesis
    unfolding first
    by (simp only: updates_decl [OF pre post opt_ws_space opt_ws_space b p1 q]) simp
qed

lemma front_read_back:
  assumes name: "plain name"
    and pre: "\<not> sublist variable pre" "pre = [] \<or> last pre = newline"
    and post: "\<not> sublist variable post"
    and ws: "opt_ws w1" "opt_ws w2" and body: "body \<noteq> []" "newline \<notin> set body"
    and p1: "\<not> sublist placeholder pre"
    and p2: "\<not> sublist placeholder (body @ CHR '']'' # post)"
    and old: "parse_rule_list (CHR ''['' # body @ CHR '']'' # takeWhile (\<lambda>c. c \<noteq> newline) post)
       = Some rs"
  shows "declarations
       (updates_hooks (pre @ variable @ w1 @ CHR ''='' # w2 @ CHR ''['' # body @ CHR '']'' # post) name)
     = [''['' @ rule name @ '', '' @ body @ CHR '']'' # takeWhile (\<lambda>c. c \<noteq> newline) post]"
    and "parse_rule_list
       (''['' @ rule name @ '', '' @ body @ CHR '']'' # takeWhile (\<lambda>c. c \<noteq> newline) post)
     = Some (routing_rule name # rs)"
proof -
  show "declarations
       (updates_hooks (pre @ variable @ w1 @ CHR ''='' # w2 @ CHR ''['' # body @ CHR '']'' # post) name)
     = [''['' @ rule name @ '', '' @ body @ CHR '']'' # takeWhile (\<lambda>c. c \<noteq> newline) post]"
    by (simp only: updates_decl [OF pre(1) post ws body p1 p2]
          declarations_front [OF pre(1) post pre(2) plain_newline [OF name] body(2)])
  from parse_rule_list_front [OF name old]
  show "parse_rule_list
       (''['' @ rule name @ '', '' @ body @ CHR '']'' # takeWhile (\<lambda>c. c \<noteq> newline) post)
     = Some (routing_rule name # rs)"
    by simp
qed

section \<open>Facts about a line appended to a text\<close>

lemma first_some_map_option:
  "first_some (map (\<lambda>k. map_option h (f k)) ks) = map_option h (first_some (map f ks))"
proof (induction ks)
  case Nil
  then show ?case by simp
next
  case (Cons k ks)
  then show ?case by (cases "f k") auto
qed

lemma re_match_close_line:
  "re_match [One (Lit (CHR '']''))] (u @ newline # Y) h =
     map_option (\<lambda>(g, r). (g, r @ newline # Y)) (re_match [One (Lit (CHR '']''))] u h)"
  by (cases u) (auto simp: newline_def)

lemma re_match_group_line:
  "re_match [GroupPlus AnyChar, One (Lit (CHR '']''))] (s @ newline # Y) g0 =
     map_option (\<lambda>(g, r). (g, r @ newline # Y))
       (re_match [GroupPlus AnyChar, One (Lit (CHR '']''))] s g0)"
proof -
  let ?n = "length (takeWhile (atom_matches AnyChar) s)"
  have tw: "takeWhile (atom_matches AnyChar) (s @ newline # Y) = takeWhile (atom_matches AnyChar) s"
    by (rule takeWhile_tail) simp
  have n: "?n \<le> length s" by (rule length_takeWhile_le)
  have "map (\<lambda>k. re_match [One (Lit (CHR '']''))] (drop k (s @ newline # Y)) (take k (s @ newline # Y)))
        (rev [1 ..< Suc ?n])
      = map (\<lambda>k. map_option (\<lambda>(g, r). (g, r @ newline # Y))
          (re_match [One (Lit (CHR '']''))] (drop k s) (take k s))) (rev [1 ..< Suc ?n])"
  proof (rule map_cong [OF refl])
    fix k assume "k \<in> set (rev [1 ..< Suc ?n])"
    with n have "k \<le> length s" by auto
    then have "drop k (s @ newline # Y) = drop k s @ newline # Y"
      "take k (s @ newline # Y) = take k s" by simp_all
    then show "re_match [One (Lit (CHR '']''))] (drop k (s @ newline # Y)) (take k (s @ newline # Y))
        = map_option (\<lambda>(g, r). (g, r @ newline # Y))
            (re_match [One (Lit (CHR '']''))] (drop k s) (take k s))"
      by (simp only: re_match_close_line)
  qed
  then show ?thesis
    by (simp only: re_match.simps(4) tw first_some_map_option)
qed

lemma opt_space_line:
  "u \<noteq> [] \<Longrightarrow> opt_space (u @ newline # Y) = opt_space u @ newline # Y"
  by (cases u) (auto simp: opt_space_def)

lemma opt_space_Nil:
  "opt_space u = [] \<Longrightarrow> opt_space (u @ newline # d # D) = d # D \<or>
     opt_space (u @ newline # d # D) = newline # d # D"
  by (cases u) (auto simp: opt_space_def is_space_def newline_def split: if_splits)

lemma match_at_line:
  assumes "d \<noteq> CHR ''=''" "d \<noteq> CHR ''[''"
  shows "match_at (t @ newline # d # D) =
     map_option (\<lambda>(g, r). (g, r @ newline # d # D)) (match_at t)"
proof (cases "prefix variable t")
  case False
  have "newline \<notin> set variable" by (simp add: variable_def newline_def)
  with False have "\<not> prefix variable (t @ newline # d # D)"
    by (simp add: prefix_append_sep)
  with False show ?thesis by (simp add: match_at_no_variable)
next
  case True
  then obtain u where t: "t = variable @ u" by (auto simp: prefix_def)
  let ?X = "newline # d # D"
  let ?G = "re_match [GroupPlus AnyChar, One (Lit (CHR '']''))]"
  have nl: "newline \<noteq> CHR ''=''" "newline \<noteq> CHR ''[''" by (simp_all add: newline_def)
  have A: "match_at (variable @ v) =
      (case opt_space v of [] \<Rightarrow> None
       | c # s1 \<Rightarrow>
           if c = CHR ''='' then
             (case opt_space s1 of [] \<Rightarrow> None
              | c' # s2 \<Rightarrow> if c' = CHR ''['' then ?G s2 [] else None)
           else None)" for v
    by (simp add: match_at_unfold del: re_match.simps)
  have B: "(case opt_space (s1 @ ?X) of [] \<Rightarrow> None
            | c' # s2 \<Rightarrow> if c' = CHR ''['' then ?G s2 [] else None)
      = map_option (\<lambda>(g, r). (g, r @ ?X))
          (case opt_space s1 of [] \<Rightarrow> None
           | c' # s2 \<Rightarrow> if c' = CHR ''['' then ?G s2 [] else None)" for s1
  proof (cases "opt_space s1")
    case Nil
    from opt_space_Nil [OF Nil, of d D] assms(2) nl(2) Nil show ?thesis
      by (auto simp del: re_match.simps)
  next
    case (Cons c' s2)
    then have "s1 \<noteq> []" by (auto simp: opt_space_def)
    from opt_space_line [OF this, of "d # D"] Cons
    have "opt_space (s1 @ ?X) = c' # (s2 @ ?X)" by simp
    with Cons show ?thesis
      by (simp add: re_match_group_line del: re_match.simps)
  qed
  have "match_at (variable @ (u @ ?X)) = map_option (\<lambda>(g, r). (g, r @ ?X)) (match_at (variable @ u))"
  proof (cases "opt_space u")
    case Nil
    from opt_space_Nil [OF Nil, of d D] assms(1) nl(1) Nil show ?thesis
      unfolding A by (auto simp del: re_match.simps)
  next
    case (Cons c s1)
    then have "u \<noteq> []" by (auto simp: opt_space_def)
    from opt_space_line [OF this, of "d # D"] Cons
    have "opt_space (u @ ?X) = c # (s1 @ ?X)" by simp
    with Cons B [of s1] show ?thesis
      unfolding A by (simp del: re_match.simps)
  qed
  with t show ?thesis by simp
qed

lemma search_line:
  assumes "d \<noteq> CHR ''=''" "d \<noteq> CHR ''[''"
  shows "search (t @ newline # d # D) =
     (case search t of
        Some (p, g, r) \<Rightarrow> Some (p, g, r @ newline # d # D)
      | None \<Rightarrow> (case search (newline # d # D) of
                   None \<Rightarrow> None | Some (q, g, r) \<Rightarrow> Some (t @ q, g, r)))"
proof (induction t)
  case Nil
  then show ?case by (simp only: search_Nil append_Nil) (simp split: option.splits)
next
  case (Cons c t)
  then show ?case
    by (simp add: match_at_line [OF assms, of "c # t" D, simplified] split: option.splits)
qed

lemma sub_line:
  assumes "d \<noteq> CHR ''=''" "d \<noteq> CHR ''[''"
  shows "sub (t @ newline # d # D) = sub t @ newline # sub (d # D)"
proof (induction t rule: sub.induct)
  case (1 t)
  have nl: "match_at (newline # d # D) = None"
    by (simp add: match_at_no_variable variable_def newline_def)
  have X: "sub (newline # d # D) = newline # sub (d # D)"
  proof (cases "search (d # D)")
    case None
    with nl have "search (newline # d # D) = None" by simp
    with None show ?thesis by (simp add: sub_None)
  next
    case (Some m)
    then obtain q g r where s: "search (d # D) = Some (q, g, r)" by (cases m) auto
    with nl have "search (newline # d # D) = Some (newline # q, g, r)" by simp
    with s show ?thesis by (simp add: sub_Some)
  qed
  show ?case
  proof (cases "search t")
    case None
    show ?thesis
    proof (cases "search (newline # d # D)")
      case n: None
      with None have "search (t @ newline # d # D) = None"
        by (simp add: search_line [OF assms])
      with None n X [symmetric] show ?thesis by (simp add: sub_None)
    next
      case (Some m)
      then obtain q g r where s: "search (newline # d # D) = Some (q, g, r)" by (cases m) auto
      with None have "search (t @ newline # d # D) = Some (t @ q, g, r)"
        by (simp add: search_line [OF assms])
      with None s X [symmetric] show ?thesis by (simp add: sub_Some sub_None)
    qed
  next
    case (Some m)
    then obtain p g r where s: "search t = Some (p, g, r)" by (cases m) auto
    then have "search (t @ newline # d # D) = Some (p, g, r @ newline # d # D)"
      by (simp add: search_line [OF assms])
    moreover from "1.IH" [of "(p, g, r)"] s
    have "sub (r @ newline # d # D) = sub r @ newline # sub (d # D)" by simp
    ultimately show ?thesis using s by (simp add: sub_Some)
  qed
qed

lemma rules_found: "search h \<noteq> None \<Longrightarrow> rules h = sub h"
  by (cases "search h") (simp_all add: rules_def)

lemma twice_no_match:
  assumes name: "newline \<notin> set name" "\<not> sublist placeholder name"
    and none: "search hooks = None"
  shows "updates_hooks (updates_hooks hooks name) name =
     str_replace placeholder (rule name) (sub (str_replace placeholder (rule name) hooks))
       @ newline # ''website_route_rules = ['' @ rule name @ '', '' @ rule name @ '',]''"
proof -
  let ?R = "rule name"
  let ?H = "str_replace placeholder ?R hooks"
  let ?D = "''ebsite_route_rules = ['' @ ?R @ '',]''"
  have w: "CHR ''w'' \<noteq> CHR ''=''" "CHR ''w'' \<noteq> CHR ''[''" by simp_all
  have out1: "updates_hooks hooks name = ?H @ newline # CHR ''w'' # ?D"
    by (simp add: updates_no_match [OF none])
  have body: "?R @ '','' \<noteq> []" "newline \<notin> set (?R @ '','')"
    using name(1) by (simp_all add: newline_rule) (simp add: newline_def)
  from match_at_decl [OF opt_ws_space opt_ws_space body, of "[]"]
  obtain g r where m: "match_at (variable @ '' '' @ CHR ''='' # '' '' @ CHR ''['' # (?R @ '','')
        @ CHR '']'' # []) = Some (g, r)"
    and e: "g @ CHR '']'' # r = (?R @ '','') @ CHR '']'' # []" and s: "suffix r []"
    by blast
  from s have "r = []" by simp
  with e have g: "g = ?R @ '',''" by simp
  have eq: "CHR ''w'' # ?D
      = variable @ '' '' @ CHR ''='' # '' '' @ CHR ''['' # (?R @ '','') @ CHR '']'' # []"
    by (simp add: variable_def)
  have "match_at (CHR ''w'' # ?D) = Some (?R @ '','', [])"
    unfolding eq using m g \<open>r = []\<close> by simp
  then have sD: "search (CHR ''w'' # ?D) = Some ([], ?R @ '','', [])" by simp
  have "sub [] = []" by (rule sub_None [OF search_Nil])
  with sD have subD: "sub (CHR ''w'' # ?D) =
      ''website_route_rules = ['' @ (placeholder @ '', '' @ ?R @ '',]'')"
    by (simp add: sub_Some expand_def)
  have "match_at (newline # CHR ''w'' # ?D) = None"
    by (simp add: match_at_no_variable variable_def newline_def)
  with sD have "search (newline # CHR ''w'' # ?D) \<noteq> None" by simp
  then have "search (?H @ newline # CHR ''w'' # ?D) \<noteq> None"
    unfolding search_line [OF w] by (cases "search ?H") auto
  then have "rules (?H @ newline # CHR ''w'' # ?D) = sub (?H @ newline # CHR ''w'' # ?D)"
    by (rule rules_found)
  also have "\<dots> = (sub ?H @ [newline]) @ ''website_route_rules = [''
      @ (placeholder @ '', '' @ ?R @ '',]'')"
    by (simp only: sub_line [OF w] subD) simp
  finally have r: "rules (?H @ newline # CHR ''w'' # ?D) =
      (sub ?H @ [newline]) @ ''website_route_rules = ['' @ (placeholder @ '', '' @ ?R @ '',]'')" .
  have "updates_hooks (updates_hooks hooks name) name
      = updates_hooks (?H @ newline # CHR ''w'' # ?D) name"
    by (simp only: out1)
  also have "\<dots> = str_replace placeholder ?R
      ((sub ?H @ [newline]) @ ''website_route_rules = ['' @ (placeholder @ '', '' @ ?R @ '',]''))"
    by (simp only: updates_hooks_def r)
  finally have "updates_hooks (updates_hooks hooks name) name =
      str_replace placeholder ?R (sub ?H @ [newline]) @ ''website_route_rules = [''
        @ str_replace placeholder ?R (placeholder @ '', '' @ ?R @ '',]'')"
    by (simp only: str_replace_open)
  moreover have "str_replace placeholder ?R (sub ?H @ [newline])
      = str_replace placeholder ?R (sub ?H) @ [newline]"
    using str_replace_sep [OF placeholder_props(1,5), of ?R "sub ?H" "[]"]
    by (simp add: str_replace_Nil placeholder_props)
  moreover have "\<not> sublist placeholder (?R @ CHR '','' # '']'')"
  proof -
    have c: "CHR '','' \<notin> set placeholder" by (simp add: placeholder_def)
    show ?thesis
      using placeholder_rule [OF name(2)]
      by (simp only: sublist_sep [OF c]) (simp add: placeholder_def sublist_Cons_right)
  qed
  then have "str_replace placeholder ?R (placeholder @ '', '' @ ?R @ '',]'')
      = ?R @ '', '' @ ?R @ '',]''"
    by (simp add: str_replace_here str_replace_step str_replace_absent placeholder_props)
  ultimately show ?thesis by simp
qed

section \<open>Further facts used for the claims\<close>

lemma str_replace_first:
  "CHR ''{'' \<notin> set a \<Longrightarrow>
   str_replace placeholder new (a @ placeholder @ b) = a @ new @ str_replace placeholder new b"
proof (induction a)
  case Nil
  then show ?case by (simp add: str_replace_here placeholder_props)
next
  case (Cons c a)
  then have "\<not> prefix placeholder (c # a @ placeholder @ b)"
    by (auto simp: placeholder_def)
  with Cons show ?case by (simp add: str_replace_step placeholder_props)
qed

lemma updates_hooks_desk:
  "updates_hooks ''app_name = 1\<newline>'' ''desk'' =
     ''app_name = 1\<newline>\<newline>website_route_rules = [{'from_route': '/desk/<path:app_path>', 'to_route': 'desk'},]''"
  by code_simp

lemma updates_opens_with_rule:
  "\<exists>a b. updates_hooks hooks name = a @ ''website_route_rules = ['' @ rule name @ b"
proof (cases "search hooks")
  case None
  from updates_no_match [OF None, of name]
  have "updates_hooks hooks name = (str_replace placeholder (rule name) hooks @ [newline])
      @ ''website_route_rules = ['' @ rule name @ '',]''"
    by simp
  then show ?thesis by blast
next
  case (Some m)
  then obtain p g r where "search hooks = Some (p, g, r)" by (cases m) auto
  from updates_match [OF this, of name] show ?thesis by blast
qed

section \<open>Facts about printing and the file system\<close>

text \<open>What is printed changes nothing that the file system shows.\<close>

lemma is_dir_echo: "is_dir (echo msg st) l = is_dir st l"
  by (simp add: is_dir_def echo_def)

lemma is_file_echo: "is_file (echo msg st) l = is_file st l"
  by (simp add: is_file_def is_dir_def echo_def)

lemma walk_echo: "walk (echo msg st) l cs = walk st l cs"
  by (induction cs arbitrary: l) (simp_all add: is_dir_echo is_file_echo)

lemma resolve_echo: "resolve (echo msg st) p = resolve st p"
  by (simp add: resolve_def walk_echo) (simp add: echo_def)

lemma exists_echo: "exists (echo msg st) p = exists st p"
  by (simp add: exists_def resolve_echo is_dir_echo is_file_echo cong: sum.case_cong)

section \<open>The claims\<close>

subsection \<open>Claim C1\<close>

text \<open>
  Claim C1, as amended. Let the SPA name be plain. For a file text in which the pattern
  finds nothing, that has no line declaring the variable and does not hold
  \<^verbatim>\<open>{rule}\<close>, the output has exactly one declaration, and its value reads back as the
  list of the one new record. For a file text that holds one declaration at the start
  of a line, in the form the pattern finds, with a list that reads back as the records
  \<open>rs\<close>, that names the variable nowhere else and holds \<^verbatim>\<open>{rule}\<close> neither before the
  declaration nor from the list on, the output has exactly one declaration, and its
  value reads back as the new record followed by \<open>rs\<close>.
\<close>

theorem C1_one_valid_declaration:
  assumes "plain name"
  shows "(search hooks = None \<and> declarations hooks = [] \<and> \<not> sublist placeholder hooks \<longrightarrow>
        declarations (updates_hooks hooks name) = [''['' @ rule name @ '',]'']
        \<and> parse_rule_list (''['' @ rule name @ '',]'') = Some [routing_rule name])
     \<and> (\<not> sublist variable pre \<and> (pre = [] \<or> last pre = newline) \<and> \<not> sublist variable post
        \<and> opt_ws w1 \<and> opt_ws w2 \<and> body \<noteq> [] \<and> newline \<notin> set body
        \<and> \<not> sublist placeholder pre \<and> \<not> sublist placeholder (body @ CHR '']'' # post)
        \<and> parse_rule_list (CHR ''['' # body @ CHR '']'' # takeWhile (\<lambda>c. c \<noteq> newline) post) = Some rs \<longrightarrow>
        declarations (updates_hooks (pre @ variable @ w1 @ CHR ''='' # w2 @ CHR ''['' # body @ CHR '']'' # post) name)
          = [''['' @ rule name @ '', '' @ body @ CHR '']'' # takeWhile (\<lambda>c. c \<noteq> newline) post]
        \<and> parse_rule_list (''['' @ rule name @ '', '' @ body @ CHR '']'' # takeWhile (\<lambda>c. c \<noteq> newline) post)
          = Some (routing_rule name # rs))"
proof (intro conjI impI)
  assume h: "search hooks = None \<and> declarations hooks = [] \<and> \<not> sublist placeholder hooks"
  then have s: "search hooks = None" and d: "declarations hooks = []"
    and p: "\<not> sublist placeholder hooks"
    by blast+
  show "declarations (updates_hooks hooks name) = [''['' @ rule name @ '',]'']"
    unfolding updates_fresh [OF s p]
    by (rule declarations_fresh [OF d plain_newline [OF assms]])
  show "parse_rule_list (''['' @ rule name @ '',]'') = Some [routing_rule name]"
    by (rule parse_rule_list_single [OF assms])
next
  assume h: "\<not> sublist variable pre \<and> (pre = [] \<or> last pre = newline) \<and> \<not> sublist variable post
        \<and> opt_ws w1 \<and> opt_ws w2 \<and> body \<noteq> [] \<and> newline \<notin> set body
        \<and> \<not> sublist placeholder pre \<and> \<not> sublist placeholder (body @ CHR '']'' # post)
        \<and> parse_rule_list (CHR ''['' # body @ CHR '']'' # takeWhile (\<lambda>c. c \<noteq> newline) post) = Some rs"
  then have hs: "\<not> sublist variable pre" "pre = [] \<or> last pre = newline"
    "\<not> sublist variable post" "opt_ws w1" "opt_ws w2" "body \<noteq> []" "newline \<notin> set body"
    "\<not> sublist placeholder pre" "\<not> sublist placeholder (body @ CHR '']'' # post)"
    "parse_rule_list (CHR ''['' # body @ CHR '']'' # takeWhile (\<lambda>c. c \<noteq> newline) post) = Some rs"
    by blast+
  from front_read_back [OF assms hs(1,2,3,4,5,6,7,8,9,10)]
  show "declarations (updates_hooks (pre @ variable @ w1 @ CHR ''='' # w2 @ CHR ''['' # body @ CHR '']'' # post) name)
          = [''['' @ rule name @ '', '' @ body @ CHR '']'' # takeWhile (\<lambda>c. c \<noteq> newline) post]"
    and "parse_rule_list (''['' @ rule name @ '', '' @ body @ CHR '']'' # takeWhile (\<lambda>c. c \<noteq> newline) post)
          = Some (routing_rule name # rs)"
    by blast+
qed

text \<open>
  Two instances: a file without the variable, and a file with one declaration between
  two other lines.
\<close>

theorem C1_witness:
  "plain ''billing'' \<and> search ''x = 1\<newline>'' = None \<and> declarations ''x = 1\<newline>'' = [] \<and> \<not> sublist placeholder ''x = 1\<newline>''
   \<and> declarations (updates_hooks ''x = 1\<newline>'' ''billing'') = [''[{'from_route': '/billing/<path:app_path>', 'to_route': 'billing'},]'']
   \<and> parse_rule_list ''[{'from_route': '/billing/<path:app_path>', 'to_route': 'billing'},]'' = Some [\<lparr>from_route = ''/billing/<path:app_path>'', to_route = ''billing''\<rparr>]
   \<and> plain ''b''
   \<and> \<not> sublist variable ''x = 1\<newline>'' \<and> (''x = 1\<newline>'' = [] \<or> last ''x = 1\<newline>'' = newline) \<and> \<not> sublist variable ''\<newline>y = 2\<newline>''
   \<and> opt_ws '' '' \<and> ''{'from_route': '/a', 'to_route': 'a'}'' \<noteq> [] \<and> newline \<notin> set ''{'from_route': '/a', 'to_route': 'a'}''
   \<and> \<not> sublist placeholder ''x = 1\<newline>'' \<and> \<not> sublist placeholder (''{'from_route': '/a', 'to_route': 'a'}'' @ CHR '']'' # ''\<newline>y = 2\<newline>'')
   \<and> parse_rule_list (CHR ''['' # ''{'from_route': '/a', 'to_route': 'a'}'' @ CHR '']'' # takeWhile (\<lambda>c. c \<noteq> newline) ''\<newline>y = 2\<newline>'') = Some [\<lparr>from_route = ''/a'', to_route = ''a''\<rparr>]
   \<and> declarations (updates_hooks ''x = 1\<newline>website_route_rules = [{'from_route': '/a', 'to_route': 'a'}]\<newline>y = 2\<newline>'' ''b'') = [''[{'from_route': '/b/<path:app_path>', 'to_route': 'b'}, {'from_route': '/a', 'to_route': 'a'}]'']
   \<and> parse_rule_list ''[{'from_route': '/b/<path:app_path>', 'to_route': 'b'}, {'from_route': '/a', 'to_route': 'a'}]'' = Some [\<lparr>from_route = ''/b/<path:app_path>'', to_route = ''b''\<rparr>, \<lparr>from_route = ''/a'', to_route = ''a''\<rparr>]"
proof -
  have p1: "plain ''billing''" and p2: "plain ''b''"
    by (simp_all add: plain_def lit_char_def quote_def backslash_def newline_def)
  have a1: "search ''x = 1\<newline>'' = None"
    by (simp add: match_at_unfold variable_def)
  have a2: "declarations ''x = 1\<newline>'' = []"
    by (simp add: declarations_def decl_value_def variable_def newline_def List.map_filter_def)
  have a3: "\<not> sublist placeholder ''x = 1\<newline>''"
    by (simp add: placeholder_def sublist_Cons_right)
  note ta = C1_one_valid_declaration [OF p1, where hooks = "''x = 1\<newline>''", THEN conjunct1]
  have c1: "declarations (updates_hooks ''x = 1\<newline>'' ''billing'') = [''[{'from_route': '/billing/<path:app_path>', 'to_route': 'billing'},]'']"
    using ta a1 a2 a3 by (simp add: rule_def quote_def)
  have c2: "parse_rule_list ''[{'from_route': '/billing/<path:app_path>', 'to_route': 'billing'},]'' = Some [\<lparr>from_route = ''/billing/<path:app_path>'', to_route = ''billing''\<rparr>]"
    using ta a1 a2 a3 by (simp add: rule_def quote_def routing_rule_def)
  have b1: "\<not> sublist variable ''x = 1\<newline>''"
    by (simp add: variable_def sublist_Cons_right)
  have b2: "''x = 1\<newline>'' = [] \<or> last ''x = 1\<newline>'' = newline"
    by (simp add: newline_def)
  have b3: "\<not> sublist variable ''\<newline>y = 2\<newline>''"
    by (simp add: variable_def sublist_Cons_right)
  have b4: "opt_ws '' ''"
    by (rule opt_ws_space)
  have b5: "''{'from_route': '/a', 'to_route': 'a'}'' \<noteq> []"
    by simp
  have b6: "newline \<notin> set ''{'from_route': '/a', 'to_route': 'a'}''"
    by (simp add: newline_def)
  have b7: "\<not> sublist placeholder ''x = 1\<newline>''"
    by (simp add: placeholder_def sublist_Cons_right)
  have b8: "\<not> sublist placeholder (''{'from_route': '/a', 'to_route': 'a'}'' @ CHR '']'' # ''\<newline>y = 2\<newline>'')"
    by (simp add: placeholder_def sublist_Cons_right)
  have b9: "parse_rule_list (CHR ''['' # ''{'from_route': '/a', 'to_route': 'a'}'' @ CHR '']'' # takeWhile (\<lambda>c. c \<noteq> newline) ''\<newline>y = 2\<newline>'') = Some [\<lparr>from_route = ''/a'', to_route = ''a''\<rparr>]"
    by code_simp
  note tb = C1_one_valid_declaration [OF p2, where pre = "''x = 1\<newline>''" and post = "''\<newline>y = 2\<newline>''"
      and ?w1.0 = "'' ''" and ?w2.0 = "'' ''" and body = "''{'from_route': '/a', 'to_route': 'a'}''" and rs = "[\<lparr>from_route = ''/a'', to_route = ''a''\<rparr>]",
      THEN conjunct2]
  have e: "(''x = 1\<newline>'' @ variable @ '' '' @ CHR ''='' # '' '' @ CHR ''['' # ''{'from_route': '/a', 'to_route': 'a'}'' @ CHR '']'' # ''\<newline>y = 2\<newline>'') = ''x = 1\<newline>website_route_rules = [{'from_route': '/a', 'to_route': 'a'}]\<newline>y = 2\<newline>''"
    by (simp add: variable_def)
  have t: "takeWhile (\<lambda>c. c \<noteq> newline) ''\<newline>y = 2\<newline>'' = []" by (simp add: newline_def)
  have c3: "declarations (updates_hooks ''x = 1\<newline>website_route_rules = [{'from_route': '/a', 'to_route': 'a'}]\<newline>y = 2\<newline>'' ''b'') = [''[{'from_route': '/b/<path:app_path>', 'to_route': 'b'}, {'from_route': '/a', 'to_route': 'a'}]'']"
    using tb b1 b2 b3 b4 b5 b6 b7 b8 b9 unfolding e t by (simp add: rule_def quote_def)
  have c4: "parse_rule_list ''[{'from_route': '/b/<path:app_path>', 'to_route': 'b'}, {'from_route': '/a', 'to_route': 'a'}]'' = Some [\<lparr>from_route = ''/b/<path:app_path>'', to_route = ''b''\<rparr>, \<lparr>from_route = ''/a'', to_route = ''a''\<rparr>]"
    using tb b1 b2 b3 b4 b5 b6 b7 b8 b9 unfolding e t
    by (simp add: rule_def quote_def routing_rule_def)
  show ?thesis
    by (intro conjI) (fact p1 p2 a1 a2 a3 b1 b2 b3 b4 b5 b6 b7 b8 b9 c1 c2 c3 c4)+
qed

text \<open>
  Claim C1 as stated fails. A file that declares the variable once, as the empty list or
  as a list written over several lines, satisfies the premise of the claim; the pattern
  finds neither, and the output declares the variable twice. And for an SPA name with a
  single quote the one declaration of the output is no list literal that can be read.
\<close>

theorem C1_counterexample:
  "declarations ''website_route_rules = []\<newline>'' = [''[]'']
   \<and> parse_rule_list ''[]'' = Some []
   \<and> declarations (updates_hooks ''website_route_rules = []\<newline>'' ''b'') = [''[]'', ''[{'from_route': '/b/<path:app_path>', 'to_route': 'b'},]'']
   \<and> declarations ''website_route_rules = [\<newline>    {'from_route': '/a', 'to_route': 'a'},\<newline>]\<newline>'' = [''['']
   \<and> declarations (updates_hooks ''website_route_rules = [\<newline>    {'from_route': '/a', 'to_route': 'a'},\<newline>]\<newline>'' ''b'')
       = [''['', ''[{'from_route': '/b/<path:app_path>', 'to_route': 'b'},]'']
   \<and> declarations ''x = 1\<newline>'' = []
   \<and> declarations (updates_hooks ''x = 1\<newline>'' ''a'b'')
       = [''[{'from_route': '/a'b/<path:app_path>', 'to_route': 'a'b'},]'']
   \<and> parse_rule_list ''[{'from_route': '/a'b/<path:app_path>', 'to_route': 'a'b'},]'' = None"
  by code_simp

subsection \<open>Claim C2\<close>

text \<open>
  Claim C2, as amended. For a file text that holds the declaration on one line, written
  \<^verbatim>\<open>website_route_rules\<close>, at most one white space character, \<^verbatim>\<open>=\<close>, at most one white
  space character, and a bracketed list with a non-empty content \<open>body\<close>; that names the
  variable nowhere else; and that holds the placeholder \<^verbatim>\<open>{rule}\<close> neither before the
  declaration nor from the list on: the record of the rule for the SPA name is put in
  as the first element of the list, followed by a comma and a space, and the text before
  the declaration, the former content of the list and the text after it are kept as they
  were.
\<close>

theorem C2_insert_first:
  assumes "\<not> sublist variable pre" "\<not> sublist variable post"
    and "opt_ws w1" "opt_ws w2" and "body \<noteq> []" "newline \<notin> set body"
    and "\<not> sublist placeholder pre" "\<not> sublist placeholder (body @ CHR '']'' # post)"
  shows "updates_hooks (pre @ variable @ w1 @ CHR ''='' # w2 @ CHR ''['' # body @ CHR '']'' # post) name
     = pre @ ''website_route_rules = ['' @ rule name @ '', '' @ body @ CHR '']'' # post"
  using assms by (rule updates_decl)

text \<open>
  The example of the claim, with the record that the generator writes for the name
  \<^verbatim>\<open>b\<close>.
\<close>

theorem C2_witness:
  "\<not> sublist variable [] \<and> \<not> sublist variable ''\<newline>'' \<and> opt_ws '' ''
   \<and> ''{'from_route': '/a', 'to_route': 'a'}'' \<noteq> []
   \<and> newline \<notin> set ''{'from_route': '/a', 'to_route': 'a'}''
   \<and> \<not> sublist placeholder []
   \<and> \<not> sublist placeholder (''{'from_route': '/a', 'to_route': 'a'}'' @ CHR '']'' # ''\<newline>'')
   \<and> updates_hooks ''website_route_rules = [{'from_route': '/a', 'to_route': 'a'}]\<newline>'' ''b'' =
       ''website_route_rules = [{'from_route': '/b/<path:app_path>', 'to_route': 'b'}, {'from_route': '/a', 'to_route': 'a'}]\<newline>''"
proof -
  have h1: "\<not> sublist variable []" by (simp add: variable_def)
  have h2: "\<not> sublist variable ''\<newline>''" by (simp add: variable_def sublist_Cons_right)
  have h3: "opt_ws '' ''" by (rule opt_ws_space)
  have h4: "''{'from_route': '/a', 'to_route': 'a'}'' \<noteq> []" by simp
  have h5: "newline \<notin> set ''{'from_route': '/a', 'to_route': 'a'}''" by (simp add: newline_def)
  have h6: "\<not> sublist placeholder []" by (simp add: placeholder_def)
  have h7: "\<not> sublist placeholder (''{'from_route': '/a', 'to_route': 'a'}'' @ CHR '']'' # ''\<newline>'')"
    by (simp add: placeholder_def sublist_Cons_right)
  from C2_insert_first [OF h1 h2 h3 h3 h4 h5 h6 h7, of "''b''"] h1 h2 h3 h4 h5 h6 h7
  show ?thesis
    by (simp add: variable_def rule_def quote_def)
qed

text \<open>
  Claim C2 as stated fails. The record for the name \<^verbatim>\<open>b\<close> has the route
  \<^verbatim>\<open>/b/<path:app_path>\<close>, so the output of the example does not hold the text that the
  claim gives. An element that holds \<^verbatim>\<open>{rule}\<close> is rewritten. A declaration with two
  spaces before \<^verbatim>\<open>=\<close> is not found, and a second declaration is appended.
\<close>

theorem C2_counterexample:
  "\<not> sublist ''website_route_rules = [{'from_route': '/b', 'to_route': 'b'}, {'from_route': '/a', 'to_route': 'a'}]''
       (updates_hooks ''website_route_rules = [{'from_route': '/a', 'to_route': 'a'}]\<newline>'' ''b'')
   \<and> updates_hooks ''website_route_rules = [{'from_route': '/{rule}', 'to_route': 'a'}]\<newline>'' ''b'' =
       ''website_route_rules = [{'from_route': '/b/<path:app_path>', 'to_route': 'b'}, {'from_route': '/{'from_route': '/b/<path:app_path>', 'to_route': 'b'}', 'to_route': 'a'}]\<newline>''
   \<and> updates_hooks ''website_route_rules  = [{'from_route': '/a', 'to_route': 'a'}]\<newline>'' ''b'' =
       ''website_route_rules  = [{'from_route': '/a', 'to_route': 'a'}]\<newline>\<newline>website_route_rules = [{'from_route': '/b/<path:app_path>', 'to_route': 'b'},]''"
  by code_simp

subsection \<open>Claim C3\<close>

text \<open>
  Claim C3, as amended. For every file text in which the pattern finds nothing, that has
  no line declaring the variable and that does not hold the placeholder
  \<^verbatim>\<open>{rule}\<close>, the text written back is the input followed by a line feed and the
  declaration \<^verbatim>\<open>website_route_rules = [RECORD,]\<close>. When the SPA name has no line
  feed, that line is the one declaration of the output; when the name is plain, its
  list reads back as exactly one record, the rule of the name.
\<close>

theorem C3_fresh_declaration:
  assumes "search hooks = None" "declarations hooks = []" "\<not> sublist placeholder hooks"
  shows "updates_hooks hooks name =
       hooks @ newline # ''website_route_rules = ['' @ rule name @ '',]''
     \<and> (newline \<notin> set name \<longrightarrow>
          declarations (updates_hooks hooks name) = [''['' @ rule name @ '',]''])
     \<and> (plain name \<longrightarrow>
          parse_rule_list (''['' @ rule name @ '',]'') = Some [routing_rule name])"
  using updates_fresh [OF assms(1,3), of name] declarations_fresh [OF assms(2), of name]
    parse_rule_list_single [of name]
  by simp

theorem C3_witness:
  "search ''x = 1\<newline>'' = None \<and> declarations ''x = 1\<newline>'' = []
   \<and> \<not> sublist placeholder ''x = 1\<newline>'' \<and> newline \<notin> set ''billing'' \<and> plain ''billing''
   \<and> updates_hooks ''x = 1\<newline>'' ''billing'' =
       ''x = 1\<newline>\<newline>website_route_rules = [{'from_route': '/billing/<path:app_path>', 'to_route': 'billing'},]''
   \<and> declarations (updates_hooks ''x = 1\<newline>'' ''billing'') =
       [''[{'from_route': '/billing/<path:app_path>', 'to_route': 'billing'},]'']
   \<and> parse_rule_list ''[{'from_route': '/billing/<path:app_path>', 'to_route': 'billing'},]'' =
       Some [\<lparr>from_route = ''/billing/<path:app_path>'', to_route = ''billing''\<rparr>]"
proof -
  have h1: "search ''x = 1\<newline>'' = None"
    by (simp add: match_at_unfold variable_def)
  have h2: "declarations ''x = 1\<newline>'' = []"
    by (simp add: declarations_def decl_value_def variable_def newline_def List.map_filter_def)
  have h3: "\<not> sublist placeholder ''x = 1\<newline>''"
    by (simp add: placeholder_def sublist_Cons_right)
  have h4: "newline \<notin> set ''billing''" by (simp add: newline_def)
  have h5: "plain ''billing''"
    by (simp add: plain_def lit_char_def quote_def backslash_def newline_def)
  note t = C3_fresh_declaration [OF h1 h2 h3, of "''billing''"]
  have c1: "updates_hooks ''x = 1\<newline>'' ''billing'' =
       ''x = 1\<newline>\<newline>website_route_rules = [{'from_route': '/billing/<path:app_path>', 'to_route': 'billing'},]''"
    using t [THEN conjunct1] by (simp add: rule_def quote_def newline_def)
  have c2: "declarations (updates_hooks ''x = 1\<newline>'' ''billing'') =
       [''[{'from_route': '/billing/<path:app_path>', 'to_route': 'billing'},]'']"
    using t [THEN conjunct2, THEN conjunct1] h4 by (simp add: rule_def quote_def)
  have c3: "parse_rule_list ''[{'from_route': '/billing/<path:app_path>', 'to_route': 'billing'},]'' =
       Some [\<lparr>from_route = ''/billing/<path:app_path>'', to_route = ''billing''\<rparr>]"
    using t [THEN conjunct2, THEN conjunct2] h5 by (simp add: rule_def quote_def routing_rule_def)
  show ?thesis
    by (intro conjI) (fact h1 h2 h3 h4 h5 c1 c2 c3)+
qed

text \<open>
  Claim C3 as stated fails. A declaration in a comment is no declaration, but the pattern
  matches it: the rule goes into the comment and nothing is appended, so the output has no
  declaration. And a text that holds \<^verbatim>\<open>{rule}\<close> is not kept: the output does not start
  with the input.
\<close>

theorem C3_counterexample:
  "declarations ''# website_route_rules = [{'from_route': '/a', 'to_route': 'a'}]\<newline>'' = []
   \<and> updates_hooks ''# website_route_rules = [{'from_route': '/a', 'to_route': 'a'}]\<newline>'' ''b'' =
       ''# website_route_rules = [{'from_route': '/b/<path:app_path>', 'to_route': 'b'}, {'from_route': '/a', 'to_route': 'a'}]\<newline>''
   \<and> declarations
       (updates_hooks ''# website_route_rules = [{'from_route': '/a', 'to_route': 'a'}]\<newline>'' ''b'')
       = []
   \<and> search ''x = '{rule}'\<newline>'' = None \<and> declarations ''x = '{rule}'\<newline>'' = []
   \<and> \<not> prefix ''x = '{rule}'\<newline>'' (updates_hooks ''x = '{rule}'\<newline>'' ''b'')"
  by code_simp

subsection \<open>Claim C4\<close>

text \<open>
  Claim C4, as amended. For the SPA name \<^verbatim>\<open>billing\<close> and the file text
  \<^verbatim>\<open>"x = 1\n"\<close>, the text written back is the input, a line feed of its own, and
  the declaration: the input's final line feed is followed by the line feed that the
  generator puts before the declaration, so an empty line stands between them.
\<close>

theorem C4_billing_example:
  "updates_hooks ''x = 1\<newline>'' ''billing'' =
     ''x = 1\<newline>\<newline>website_route_rules = [{'from_route': '/billing/<path:app_path>', 'to_route': 'billing'},]''"
  by code_simp

text \<open>
  Claim C4 as stated gives the output without the empty line; the generator does not
  produce that text.
\<close>

theorem C4_counterexample:
  "updates_hooks ''x = 1\<newline>'' ''billing'' \<noteq>
     ''x = 1\<newline>website_route_rules = [{'from_route': '/billing/<path:app_path>', 'to_route': 'billing'},]''"
  by code_simp

subsection \<open>Claim C5\<close>

text \<open>
  Claim C5, as amended. Let the SPA name hold neither a line feed nor the placeholder
  \<^verbatim>\<open>{rule}\<close>. For a file text in which the pattern finds nothing, two injections
  of the same name end the text with the declaration
  \<^verbatim>\<open>website_route_rules = [RECORD, RECORD,]\<close> on a line of its own, and when the
  text does not hold the placeholder, the output is the input followed by that line.
  For a file text that holds one declaration in the form the pattern finds and the
  name of the variable nowhere else, and that holds the placeholder neither before the
  declaration nor from the list on, two injections put the record twice at the head of
  the list. The two records are the same text; nothing is compared with what the list
  holds already.
\<close>

theorem C5_twice_two_records:
  assumes "newline \<notin> set name" "\<not> sublist placeholder name"
  shows "(search hooks = None \<longrightarrow>
        (\<exists>t. updates_hooks (updates_hooks hooks name) name =
          t @ newline # ''website_route_rules = ['' @ rule name @ '', '' @ rule name @ '',]'')
        \<and> (\<not> sublist placeholder hooks \<longrightarrow>
          updates_hooks (updates_hooks hooks name) name =
            hooks @ newline # ''website_route_rules = ['' @ rule name @ '', '' @ rule name @ '',]''))
     \<and> (\<not> sublist variable pre \<and> \<not> sublist variable post
        \<and> opt_ws w1 \<and> opt_ws w2 \<and> body \<noteq> [] \<and> newline \<notin> set body
        \<and> \<not> sublist placeholder pre \<and> \<not> sublist placeholder (body @ CHR '']'' # post) \<longrightarrow>
        updates_hooks (updates_hooks (pre @ variable @ w1 @ CHR ''='' # w2 @ CHR ''['' # body @ CHR '']'' # post) name) name =
          pre @ ''website_route_rules = ['' @ rule name @ '', '' @ rule name @ '', ''
            @ body @ CHR '']'' # post)"
proof (intro conjI impI)
  assume none: "search hooks = None"
  from twice_no_match [OF assms none]
  show "\<exists>t. updates_hooks (updates_hooks hooks name) name =
      t @ newline # ''website_route_rules = ['' @ rule name @ '', '' @ rule name @ '',]''"
    by blast
next
  assume none: "search hooks = None" and p: "\<not> sublist placeholder hooks"
  have "str_replace placeholder (rule name) hooks = hooks"
    by (rule str_replace_absent [OF placeholder_props(1) p])
  with twice_no_match [OF assms none] sub_None [OF none]
  show "updates_hooks (updates_hooks hooks name) name =
      hooks @ newline # ''website_route_rules = ['' @ rule name @ '', '' @ rule name @ '',]''"
    by simp
next
  assume "\<not> sublist variable pre \<and> \<not> sublist variable post
        \<and> opt_ws w1 \<and> opt_ws w2 \<and> body \<noteq> [] \<and> newline \<notin> set body
        \<and> \<not> sublist placeholder pre \<and> \<not> sublist placeholder (body @ CHR '']'' # post)"
  then have hs: "\<not> sublist variable pre" "\<not> sublist variable post" "opt_ws w1" "opt_ws w2"
    "body \<noteq> []" "newline \<notin> set body" "\<not> sublist placeholder pre"
    "\<not> sublist placeholder (body @ CHR '']'' # post)"
    by blast+
  show "updates_hooks (updates_hooks (pre @ variable @ w1 @ CHR ''='' # w2 @ CHR ''['' # body @ CHR '']'' # post) name) name =
      pre @ ''website_route_rules = ['' @ rule name @ '', '' @ rule name @ '', ''
        @ body @ CHR '']'' # post"
    by (rule twice_front [OF assms hs])
qed

text \<open>
  Two instances: a file that declares the empty list, which the pattern does not find, and
  a file with one declaration between two other lines.
\<close>

theorem C5_witness:
  "newline \<notin> set ''b'' \<and> \<not> sublist placeholder ''b''
   \<and> search ''website_route_rules = []\<newline>'' = None
   \<and> \<not> sublist placeholder ''website_route_rules = []\<newline>''
   \<and> updates_hooks (updates_hooks ''website_route_rules = []\<newline>'' ''b'') ''b'' =
       ''website_route_rules = []\<newline>\<newline>website_route_rules = [{'from_route': '/b/<path:app_path>', 'to_route': 'b'}, {'from_route': '/b/<path:app_path>', 'to_route': 'b'},]''
   \<and> \<not> sublist variable ''x = 1\<newline>'' \<and> \<not> sublist variable ''\<newline>y = 2\<newline>''
   \<and> opt_ws '' '' \<and> ''{'from_route': '/a', 'to_route': 'a'}'' \<noteq> [] \<and> newline \<notin> set ''{'from_route': '/a', 'to_route': 'a'}''
   \<and> \<not> sublist placeholder ''x = 1\<newline>'' \<and> \<not> sublist placeholder (''{'from_route': '/a', 'to_route': 'a'}'' @ CHR '']'' # ''\<newline>y = 2\<newline>'')
   \<and> updates_hooks (updates_hooks ''x = 1\<newline>website_route_rules = [{'from_route': '/a', 'to_route': 'a'}]\<newline>y = 2\<newline>'' ''b'') ''b'' =
       ''x = 1\<newline>website_route_rules = [{'from_route': '/b/<path:app_path>', 'to_route': 'b'}, {'from_route': '/b/<path:app_path>', 'to_route': 'b'}, {'from_route': '/a', 'to_route': 'a'}]\<newline>y = 2\<newline>''"
proof -
  have n2: "newline \<notin> set ''b''"
    by (simp add: newline_def)
  have q2: "\<not> sublist placeholder ''b''"
    by (simp add: placeholder_def sublist_Cons_right)
  have a1: "search ''website_route_rules = []\<newline>'' = None"
    by code_simp
  have a3: "\<not> sublist placeholder ''website_route_rules = []\<newline>''"
    by (simp add: placeholder_def sublist_Cons_right)
  note ta = C5_twice_two_records [OF n2 q2, where hooks = "''website_route_rules = []\<newline>''",
      THEN conjunct1]
  have c1: "updates_hooks (updates_hooks ''website_route_rules = []\<newline>'' ''b'') ''b'' =
       ''website_route_rules = []\<newline>\<newline>website_route_rules = [{'from_route': '/b/<path:app_path>', 'to_route': 'b'}, {'from_route': '/b/<path:app_path>', 'to_route': 'b'},]''"
    using ta a1 a3 by (simp add: rule_def quote_def newline_def)
  have b1: "\<not> sublist variable ''x = 1\<newline>''"
    by (simp add: variable_def sublist_Cons_right)
  have b2: "''x = 1\<newline>'' = [] \<or> last ''x = 1\<newline>'' = newline"
    by (simp add: newline_def)
  have b3: "\<not> sublist variable ''\<newline>y = 2\<newline>''"
    by (simp add: variable_def sublist_Cons_right)
  have b4: "opt_ws '' ''"
    by (rule opt_ws_space)
  have b5: "''{'from_route': '/a', 'to_route': 'a'}'' \<noteq> []"
    by simp
  have b6: "newline \<notin> set ''{'from_route': '/a', 'to_route': 'a'}''"
    by (simp add: newline_def)
  have b7: "\<not> sublist placeholder ''x = 1\<newline>''"
    by (simp add: placeholder_def sublist_Cons_right)
  have b8: "\<not> sublist placeholder (''{'from_route': '/a', 'to_route': 'a'}'' @ CHR '']'' # ''\<newline>y = 2\<newline>'')"
    by (simp add: placeholder_def sublist_Cons_right)
  note tb = C5_twice_two_records [OF n2 q2, where pre = "''x = 1\<newline>''" and post = "''\<newline>y = 2\<newline>''"
      and ?w1.0 = "'' ''" and ?w2.0 = "'' ''" and body = "''{'from_route': '/a', 'to_route': 'a'}''", THEN conjunct2]
  have e: "(''x = 1\<newline>'' @ variable @ '' '' @ CHR ''='' # '' '' @ CHR ''['' # ''{'from_route': '/a', 'to_route': 'a'}'' @ CHR '']'' # ''\<newline>y = 2\<newline>'') = ''x = 1\<newline>website_route_rules = [{'from_route': '/a', 'to_route': 'a'}]\<newline>y = 2\<newline>''"
    by (simp add: variable_def)
  have c2: "updates_hooks (updates_hooks ''x = 1\<newline>website_route_rules = [{'from_route': '/a', 'to_route': 'a'}]\<newline>y = 2\<newline>'' ''b'') ''b'' =
       ''x = 1\<newline>website_route_rules = [{'from_route': '/b/<path:app_path>', 'to_route': 'b'}, {'from_route': '/b/<path:app_path>', 'to_route': 'b'}, {'from_route': '/a', 'to_route': 'a'}]\<newline>y = 2\<newline>''"
    using tb b1 b3 b4 b5 b6 b7 b8 unfolding e by (simp add: rule_def quote_def)
  show ?thesis
    by (intro conjI) (fact n2 q2 a1 a3 b1 b3 b4 b5 b6 b7 b8 c1 c2)+
qed

text \<open>
  Claim C5 as stated fails for an SPA name that holds the placeholder: the second
  injection replaces \<^verbatim>\<open>{rule}\<close> inside the record that the first one wrote, so the list
  does not hold the record twice. It fails for a name with a line feed as well: the
  pattern does not find the declaration that the first injection wrote, and the second
  one appends another declaration.
\<close>

theorem C5_counterexample:
  "\<not> sublist (rule ''{rule}'' @ '', '' @ rule ''{rule}'')
       (updates_hooks (updates_hooks ''x = 1\<newline>'' ''{rule}'') ''{rule}'')
   \<and> \<not> sublist (rule ''a\<newline>b'' @ '', '' @ rule ''a\<newline>b'')
       (updates_hooks (updates_hooks ''x = 1\<newline>'' ''a\<newline>b'') ''a\<newline>b'')"
  by code_simp

subsection \<open>Claim C6\<close>

text \<open>
  Claim C6, as amended. Let the SPA name be plain. For every file text, the output holds
  a declaration of the variable whose list starts with the record of the rule, and that
  record reads back as the rule: \<^verbatim>\<open>from_route\<close> is \<^verbatim>\<open>/NAME/<path:app_path>\<close> and
  \<^verbatim>\<open>to_route\<close> is the name. For a file text in which the pattern finds nothing, that
  has no line declaring the variable and does not hold \<^verbatim>\<open>{rule}\<close>, the list literal
  of the one declaration of the output reads back as the rule alone. For a file text
  that holds one declaration at the start of a line, in the form the pattern finds,
  with a list that reads back as the records \<open>rs\<close>, that names the variable nowhere else
  and holds \<^verbatim>\<open>{rule}\<close> neither before the declaration nor from the list on, it reads
  back as the rule followed by \<open>rs\<close>.
\<close>

theorem C6_read_back:
  assumes "plain name"
  shows "(\<exists>a b. updates_hooks hooks name = a @ ''website_route_rules = ['' @ rule name @ b
          \<and> parse_record (rule name @ b)
            = Some (\<lparr>from_route = ''/'' @ name @ ''/<path:app_path>'', to_route = name\<rparr>, b))
     \<and> (search hooks = None \<and> declarations hooks = [] \<and> \<not> sublist placeholder hooks \<longrightarrow>
        map parse_rule_list (declarations (updates_hooks hooks name))
          = [Some [\<lparr>from_route = ''/'' @ name @ ''/<path:app_path>'', to_route = name\<rparr>]])
     \<and> (\<not> sublist variable pre \<and> (pre = [] \<or> last pre = newline) \<and> \<not> sublist variable post
        \<and> opt_ws w1 \<and> opt_ws w2 \<and> body \<noteq> [] \<and> newline \<notin> set body
        \<and> \<not> sublist placeholder pre \<and> \<not> sublist placeholder (body @ CHR '']'' # post)
        \<and> parse_rule_list (CHR ''['' # body @ CHR '']'' # takeWhile (\<lambda>c. c \<noteq> newline) post) = Some rs \<longrightarrow>
        map parse_rule_list (declarations (updates_hooks (pre @ variable @ w1 @ CHR ''='' # w2 @ CHR ''['' # body @ CHR '']'' # post) name))
          = [Some (\<lparr>from_route = ''/'' @ name @ ''/<path:app_path>'', to_route = name\<rparr> # rs)])"
proof (intro conjI impI)
  from updates_opens_with_rule [of hooks name] obtain a b where
    "updates_hooks hooks name = a @ ''website_route_rules = ['' @ rule name @ b" by blast
  moreover have "parse_record (rule name @ b)
      = Some (\<lparr>from_route = ''/'' @ name @ ''/<path:app_path>'', to_route = name\<rparr>, b)"
    using parse_record_rule [OF assms, of b] by (simp add: routing_rule_def)
  ultimately show "\<exists>a b. updates_hooks hooks name = a @ ''website_route_rules = ['' @ rule name @ b
      \<and> parse_record (rule name @ b)
        = Some (\<lparr>from_route = ''/'' @ name @ ''/<path:app_path>'', to_route = name\<rparr>, b)"
    by blast
next
  assume "search hooks = None \<and> declarations hooks = [] \<and> \<not> sublist placeholder hooks"
  then have s: "search hooks = None" and d: "declarations hooks = []"
    and p: "\<not> sublist placeholder hooks"
    by blast+
  have "declarations (updates_hooks hooks name) = [''['' @ rule name @ '',]'']"
    unfolding updates_fresh [OF s p]
    by (rule declarations_fresh [OF d plain_newline [OF assms]])
  with parse_rule_list_single [OF assms]
  show "map parse_rule_list (declarations (updates_hooks hooks name))
      = [Some [\<lparr>from_route = ''/'' @ name @ ''/<path:app_path>'', to_route = name\<rparr>]]"
    by (simp add: routing_rule_def)
next
  assume "\<not> sublist variable pre \<and> (pre = [] \<or> last pre = newline) \<and> \<not> sublist variable post
        \<and> opt_ws w1 \<and> opt_ws w2 \<and> body \<noteq> [] \<and> newline \<notin> set body
        \<and> \<not> sublist placeholder pre \<and> \<not> sublist placeholder (body @ CHR '']'' # post)
        \<and> parse_rule_list (CHR ''['' # body @ CHR '']'' # takeWhile (\<lambda>c. c \<noteq> newline) post) = Some rs"
  then have hs: "\<not> sublist variable pre" "pre = [] \<or> last pre = newline"
    "\<not> sublist variable post" "opt_ws w1" "opt_ws w2" "body \<noteq> []" "newline \<notin> set body"
    "\<not> sublist placeholder pre" "\<not> sublist placeholder (body @ CHR '']'' # post)"
    "parse_rule_list (CHR ''['' # body @ CHR '']'' # takeWhile (\<lambda>c. c \<noteq> newline) post) = Some rs"
    by blast+
  from front_read_back [OF assms hs(1,2,3,4,5,6,7,8,9,10)]
  show "map parse_rule_list (declarations (updates_hooks (pre @ variable @ w1 @ CHR ''='' # w2 @ CHR ''['' # body @ CHR '']'' # post) name))
      = [Some (\<lparr>from_route = ''/'' @ name @ ''/<path:app_path>'', to_route = name\<rparr> # rs)]"
    by (simp add: routing_rule_def)
qed

theorem C6_witness:
  "plain ''billing''
   \<and> updates_hooks ''x = 1\<newline>'' ''billing'' =
       ''x = 1\<newline>\<newline>'' @ ''website_route_rules = ['' @ rule ''billing'' @ '',]''
   \<and> parse_record (rule ''billing'' @ '',]'') = Some (\<lparr>from_route = ''/billing/<path:app_path>'', to_route = ''billing''\<rparr>, '',]'')
   \<and> search ''x = 1\<newline>'' = None \<and> declarations ''x = 1\<newline>'' = [] \<and> \<not> sublist placeholder ''x = 1\<newline>''
   \<and> map parse_rule_list (declarations (updates_hooks ''x = 1\<newline>'' ''billing'')) = [Some [\<lparr>from_route = ''/billing/<path:app_path>'', to_route = ''billing''\<rparr>]]
   \<and> plain ''b''
   \<and> \<not> sublist variable ''x = 1\<newline>'' \<and> (''x = 1\<newline>'' = [] \<or> last ''x = 1\<newline>'' = newline) \<and> \<not> sublist variable ''\<newline>y = 2\<newline>''
   \<and> opt_ws '' '' \<and> ''{'from_route': '/a', 'to_route': 'a'}'' \<noteq> [] \<and> newline \<notin> set ''{'from_route': '/a', 'to_route': 'a'}''
   \<and> \<not> sublist placeholder ''x = 1\<newline>'' \<and> \<not> sublist placeholder (''{'from_route': '/a', 'to_route': 'a'}'' @ CHR '']'' # ''\<newline>y = 2\<newline>'')
   \<and> parse_rule_list (CHR ''['' # ''{'from_route': '/a', 'to_route': 'a'}'' @ CHR '']'' # takeWhile (\<lambda>c. c \<noteq> newline) ''\<newline>y = 2\<newline>'') = Some [\<lparr>from_route = ''/a'', to_route = ''a''\<rparr>]
   \<and> map parse_rule_list (declarations (updates_hooks ''x = 1\<newline>website_route_rules = [{'from_route': '/a', 'to_route': 'a'}]\<newline>y = 2\<newline>'' ''b'')) = [Some [\<lparr>from_route = ''/b/<path:app_path>'', to_route = ''b''\<rparr>, \<lparr>from_route = ''/a'', to_route = ''a''\<rparr>]]"
proof -
  have p1: "plain ''billing''" and p2: "plain ''b''"
    by (simp_all add: plain_def lit_char_def quote_def backslash_def newline_def)
  have a1: "search ''x = 1\<newline>'' = None"
    by (simp add: match_at_unfold variable_def)
  have a2: "declarations ''x = 1\<newline>'' = []"
    by (simp add: declarations_def decl_value_def variable_def newline_def List.map_filter_def)
  have a3: "\<not> sublist placeholder ''x = 1\<newline>''"
    by (simp add: placeholder_def sublist_Cons_right)
  note t = C6_read_back [OF p1, where hooks = "''x = 1\<newline>''"]
  have c0: "updates_hooks ''x = 1\<newline>'' ''billing'' =
       ''x = 1\<newline>\<newline>'' @ ''website_route_rules = ['' @ rule ''billing'' @ '',]''"
    using updates_fresh [OF a1 a3, of "''billing''"] by (simp add: newline_def)
  have c1: "parse_record (rule ''billing'' @ '',]'') = Some (\<lparr>from_route = ''/billing/<path:app_path>'', to_route = ''billing''\<rparr>, '',]'')"
    using parse_record_rule [OF p1, of "'',]''"] by (simp add: routing_rule_def)
  have c2: "map parse_rule_list (declarations (updates_hooks ''x = 1\<newline>'' ''billing'')) = [Some [\<lparr>from_route = ''/billing/<path:app_path>'', to_route = ''billing''\<rparr>]]"
    using t [THEN conjunct2, THEN conjunct1] a1 a2 a3 by simp
  have b1: "\<not> sublist variable ''x = 1\<newline>''"
    by (simp add: variable_def sublist_Cons_right)
  have b2: "''x = 1\<newline>'' = [] \<or> last ''x = 1\<newline>'' = newline"
    by (simp add: newline_def)
  have b3: "\<not> sublist variable ''\<newline>y = 2\<newline>''"
    by (simp add: variable_def sublist_Cons_right)
  have b4: "opt_ws '' ''"
    by (rule opt_ws_space)
  have b5: "''{'from_route': '/a', 'to_route': 'a'}'' \<noteq> []"
    by simp
  have b6: "newline \<notin> set ''{'from_route': '/a', 'to_route': 'a'}''"
    by (simp add: newline_def)
  have b7: "\<not> sublist placeholder ''x = 1\<newline>''"
    by (simp add: placeholder_def sublist_Cons_right)
  have b8: "\<not> sublist placeholder (''{'from_route': '/a', 'to_route': 'a'}'' @ CHR '']'' # ''\<newline>y = 2\<newline>'')"
    by (simp add: placeholder_def sublist_Cons_right)
  have b9: "parse_rule_list (CHR ''['' # ''{'from_route': '/a', 'to_route': 'a'}'' @ CHR '']'' # takeWhile (\<lambda>c. c \<noteq> newline) ''\<newline>y = 2\<newline>'') = Some [\<lparr>from_route = ''/a'', to_route = ''a''\<rparr>]"
    by code_simp
  note tb = C6_read_back [OF p2, where pre = "''x = 1\<newline>''" and post = "''\<newline>y = 2\<newline>''"
      and ?w1.0 = "'' ''" and ?w2.0 = "'' ''" and body = "''{'from_route': '/a', 'to_route': 'a'}''" and rs = "[\<lparr>from_route = ''/a'', to_route = ''a''\<rparr>]",
      THEN conjunct2, THEN conjunct2]
  have e: "(''x = 1\<newline>'' @ variable @ '' '' @ CHR ''='' # '' '' @ CHR ''['' # ''{'from_route': '/a', 'to_route': 'a'}'' @ CHR '']'' # ''\<newline>y = 2\<newline>'') = ''x = 1\<newline>website_route_rules = [{'from_route': '/a', 'to_route': 'a'}]\<newline>y = 2\<newline>''"
    by (simp add: variable_def)
  have c3: "map parse_rule_list (declarations (updates_hooks ''x = 1\<newline>website_route_rules = [{'from_route': '/a', 'to_route': 'a'}]\<newline>y = 2\<newline>'' ''b'')) = [Some [\<lparr>from_route = ''/b/<path:app_path>'', to_route = ''b''\<rparr>, \<lparr>from_route = ''/a'', to_route = ''a''\<rparr>]]"
    using tb b1 b2 b3 b4 b5 b6 b7 b8 b9 unfolding e by simp
  show ?thesis
    by (intro conjI) (fact p1 p2 a1 a2 a3 b1 b2 b3 b4 b5 b6 b7 b8 b9 c0 c1 c2 c3)+
qed

text \<open>
  Claim C6 as stated fails for an SPA name that is not plain: the record is written
  without escaping, so with a single quote in the name it does not read back.
\<close>

theorem C6_counterexample:
  "map parse_rule_list (declarations (updates_hooks ''x = 1\<newline>'' ''a'b'')) = [None]
   \<and> declarations (updates_hooks ''x = 1\<newline>'' ''a'b'')
       = [''[{'from_route': '/a'b/<path:app_path>', 'to_route': 'a'b'},]'']
   \<and> parse_record (rule ''a'b'') = None"
  by code_simp

subsection \<open>Claim C7\<close>

text \<open>
  Claim C7. When the package.json of the SPA does not exist, \<open>update_package_json\<close>
  prints its message and returns without an exception; no file and no directory is
  created or changed, so neither the manifest of the SPA nor that of the app gets a
  build script.
\<close>

theorem C7_missing_manifest:
  assumes "\<not> exists st (joinpath (spa_path self) ''package.json'')"
  shows "update_package_json e self st =
       Inr (echo ''package.json not found. Please manulally update the build command.'' st)
     \<and> files (echo ''package.json not found. Please manulally update the build command.'' st)
         = files st
     \<and> dirs (echo ''package.json not found. Please manulally update the build command.'' st)
         = dirs st"
  using assms by (simp add: update_package_json_def echo_def)

text \<open>
  An instance: an app whose manifest exists, an SPA directory without one, and tools
  that would fail if they were called.
\<close>

theorem C7_witness:
  "\<not> exists
       \<lparr>files = [[''bench'', ''apps'', ''shop'', ''package.json''] \<mapsto> ''{}''],
        dirs = {[''bench''], [''bench'', ''sites''], [''bench'', ''apps''],
                [''bench'', ''apps'', ''shop''], [''bench'', ''apps'', ''shop'', ''billing'']},
        cwd = [''bench'', ''sites''], stdout = []\<rparr>
       (joinpath (spa_path \<lparr>app = ''shop'', spa_name = ''billing'', add_tailwindcss = False\<rparr>)
          ''package.json'')
   \<and> update_package_json
       \<lparr>run_process = (\<lambda>args d st. Inl OSError), create_file = (\<lambda>p t st. Inl OSError),
        json_load = (\<lambda>t. None), json_dump = (\<lambda>d. []),
        MAIN_JS_BOILERPLATE = [], PROXY_OPTIONS_BOILERPLATE = [], VITE_CONFIG_BOILERPLATE = [],
        ROUTER_INDEX_BOILERPLATE = [], AUTH_ROUTES_BOILERPLATE = [], APP_VUE_BOILERPLATE = [],
        HOME_VUE_BOILERPLATE = [], LOGIN_VUE_BOILERPLATE = []\<rparr>
       \<lparr>app = ''shop'', spa_name = ''billing'', add_tailwindcss = False\<rparr>
       \<lparr>files = [[''bench'', ''apps'', ''shop'', ''package.json''] \<mapsto> ''{}''],
        dirs = {[''bench''], [''bench'', ''sites''], [''bench'', ''apps''],
                [''bench'', ''apps'', ''shop''], [''bench'', ''apps'', ''shop'', ''billing'']},
        cwd = [''bench'', ''sites''], stdout = []\<rparr>
     = Inr \<lparr>files = [[''bench'', ''apps'', ''shop'', ''package.json''] \<mapsto> ''{}''],
        dirs = {[''bench''], [''bench'', ''sites''], [''bench'', ''apps''],
                [''bench'', ''apps'', ''shop''], [''bench'', ''apps'', ''shop'', ''billing'']},
        cwd = [''bench'', ''sites''],
        stdout = [''package.json not found. Please manulally update the build command.'']\<rparr>"
proof -
  let ?st = "\<lparr>files = [[''bench'', ''apps'', ''shop'', ''package.json''] \<mapsto> ''{}''],
        dirs = {[''bench''], [''bench'', ''sites''], [''bench'', ''apps''],
                [''bench'', ''apps'', ''shop''], [''bench'', ''apps'', ''shop'', ''billing'']},
        cwd = [''bench'', ''sites''], stdout = []\<rparr>"
  let ?self = "\<lparr>app = ''shop'', spa_name = ''billing'', add_tailwindcss = False\<rparr>"
  have h: "\<not> exists ?st (joinpath (spa_path ?self) ''package.json'')"
    by (simp add: exists_def resolve_def is_dir_def is_file_def joinpath_def spa_path_def
          app_path_def Path_def parse_root_def parse_parts_def)
  from C7_missing_manifest [OF h] h show ?thesis
    by (simp add: echo_def)
qed

subsection \<open>Claim C8\<close>

text \<open>
  Claim C8. When \<^verbatim>\<open>src/main.js\<close> is missing after the scaffolding step,
  \<open>link_controller_files\<close> prints its two messages and returns without an exception,
  and \<open>generate_spa\<close> goes on with the steps that follow it, from the state that
  \<open>link_controller_files\<close> returned: the proxy options, the router, the Vue files,
  package.json, the www directory, Tailwind if asked for, and the routing rule in
  hooks.py. Each of these steps can still raise for a reason of its own, as where the
  directory of the SPA is missing too.
\<close>

theorem C8_missing_main_js:
  assumes "initialize_vue_vite_project e self (echo ''Generating spa...'' st) = Inr st1"
    and "\<not> exists st1 (joinpath (app_path self) (spa_name self @ ''/src/main.js''))"
  shows "link_controller_files e self st1 =
       Inr (echo ''src/main.js not found!'' (echo ''Linking controller files...'' st1))
     \<and> generate_spa e self st =
       run_steps
         ([setup_proxy_options e self, setup_vue_router e self, create_vue_files e self,
           update_package_json e self, create_www_directory e self]
          @ (if add_tailwindcss self then [setup_tailwindcss e self] else [])
          @ [add_routing_rule_to_hooks e self,
             \<lambda>st. Inr (echo ''to start the development server and visit: http://<site>:8080''
               (echo (''Run: cd '' @ path_str (absolute st (spa_path self)) @ '' && npm run dev'')
                  st))])
         (echo ''src/main.js not found!'' (echo ''Linking controller files...'' st1))"
proof -
  from assms(2) have
    "\<not> exists (echo ''Linking controller files...'' st1)
        (joinpath (app_path self) (spa_name self @ ''/src/main.js''))"
    by (simp add: exists_echo)
  then have l: "link_controller_files e self st1 =
       Inr (echo ''src/main.js not found!'' (echo ''Linking controller files...'' st1))"
    by (simp add: link_controller_files_def Let_def)
  with assms(1) show ?thesis
    by (simp add: generate_spa_def and_then_def)
qed

text \<open>
  An instance, run from \<^verbatim>\<open>/bench/sites\<close> on an app \<^verbatim>\<open>shop\<close> with its hooks.py: the
  scaffolding tool makes the directory of the project and \<^verbatim>\<open>src\<close> in it, and no
  \<^verbatim>\<open>main.js\<close>; \<^verbatim>\<open>create_file\<close> creates a missing file and writes a text that is not
  empty. The run prints the message, writes the files of the later steps into the
  directories that exist, and patches hooks.py; nothing is written at
  \<^verbatim>\<open>src/main.js\<close>.
\<close>

theorem C8_witness:
  "initialize_vue_vite_project
       \<lparr>run_process = (\<lambda>args d st.
           if take 2 args = [''yarn'', ''create'']
           then and_then (mkdir (joinpath d (args ! 3)) st) (mkdir (joinpath d (args ! 3 @ ''/src'')))
           else Inr st),
        create_file = (\<lambda>p t st.
           and_then (if exists st p then Inr st else touch p st)
             (\<lambda>st. if t = [] then Inr st else write_text p t st)),
        json_load = (\<lambda>t. None), json_dump = (\<lambda>d. []),
        MAIN_JS_BOILERPLATE = ''m'', PROXY_OPTIONS_BOILERPLATE = ''p'',
        VITE_CONFIG_BOILERPLATE = ''{{app}}/{{name}}'', ROUTER_INDEX_BOILERPLATE = ''{{name}}'',
        AUTH_ROUTES_BOILERPLATE = ''a'', APP_VUE_BOILERPLATE = ''v'',
        HOME_VUE_BOILERPLATE = ''h'', LOGIN_VUE_BOILERPLATE = ''l''\<rparr>
       \<lparr>app = ''shop'', spa_name = ''desk'', add_tailwindcss = False\<rparr>
       (echo ''Generating spa...''
         \<lparr>files = [[''bench'', ''apps'', ''shop'', ''shop'', ''hooks.py''] \<mapsto> ''app_name = 1\<newline>''],
        dirs = {[''bench''], [''bench'', ''sites''], [''bench'', ''apps''],
                [''bench'', ''apps'', ''shop''], [''bench'', ''apps'', ''shop'', ''shop'']},
        cwd = [''bench'', ''sites''], stdout = []\<rparr>)
     = Inr \<lparr>files = [[''bench'', ''apps'', ''shop'', ''shop'', ''hooks.py''] \<mapsto> ''app_name = 1\<newline>''],
        dirs = {[''bench'', ''apps'', ''shop'', ''desk'', ''src''],
                [''bench'', ''apps'', ''shop'', ''desk''],
                [''bench''], [''bench'', ''sites''], [''bench'', ''apps''],
                [''bench'', ''apps'', ''shop''], [''bench'', ''apps'', ''shop'', ''shop'']},
        cwd = [''bench'', ''sites''],
        stdout = [''Generating spa...'', ''Scafolding vue project...'',
          ''Installing dependencies...'']\<rparr>
   \<and> \<not> exists \<lparr>files = [[''bench'', ''apps'', ''shop'', ''shop'', ''hooks.py''] \<mapsto> ''app_name = 1\<newline>''],
        dirs = {[''bench'', ''apps'', ''shop'', ''desk'', ''src''],
                [''bench'', ''apps'', ''shop'', ''desk''],
                [''bench''], [''bench'', ''sites''], [''bench'', ''apps''],
                [''bench'', ''apps'', ''shop''], [''bench'', ''apps'', ''shop'', ''shop'']},
        cwd = [''bench'', ''sites''],
        stdout = [''Generating spa...'', ''Scafolding vue project...'',
          ''Installing dependencies...'']\<rparr>
        (joinpath (app_path \<lparr>app = ''shop'', spa_name = ''desk'', add_tailwindcss = False\<rparr>)
          (spa_name \<lparr>app = ''shop'', spa_name = ''desk'', add_tailwindcss = False\<rparr>
             @ ''/src/main.js''))
   \<and> (case generate_spa
       \<lparr>run_process = (\<lambda>args d st.
           if take 2 args = [''yarn'', ''create'']
           then and_then (mkdir (joinpath d (args ! 3)) st) (mkdir (joinpath d (args ! 3 @ ''/src'')))
           else Inr st),
        create_file = (\<lambda>p t st.
           and_then (if exists st p then Inr st else touch p st)
             (\<lambda>st. if t = [] then Inr st else write_text p t st)),
        json_load = (\<lambda>t. None), json_dump = (\<lambda>d. []),
        MAIN_JS_BOILERPLATE = ''m'', PROXY_OPTIONS_BOILERPLATE = ''p'',
        VITE_CONFIG_BOILERPLATE = ''{{app}}/{{name}}'', ROUTER_INDEX_BOILERPLATE = ''{{name}}'',
        AUTH_ROUTES_BOILERPLATE = ''a'', APP_VUE_BOILERPLATE = ''v'',
        HOME_VUE_BOILERPLATE = ''h'', LOGIN_VUE_BOILERPLATE = ''l''\<rparr>
       \<lparr>app = ''shop'', spa_name = ''desk'', add_tailwindcss = False\<rparr>
       \<lparr>files = [[''bench'', ''apps'', ''shop'', ''shop'', ''hooks.py''] \<mapsto> ''app_name = 1\<newline>''],
        dirs = {[''bench''], [''bench'', ''sites''], [''bench'', ''apps''],
                [''bench'', ''apps'', ''shop''], [''bench'', ''apps'', ''shop'', ''shop'']},
        cwd = [''bench'', ''sites''], stdout = []\<rparr>
      of Inl err \<Rightarrow> False
       | Inr st' \<Rightarrow>
           stdout st' = [''Generating spa...'', ''Scafolding vue project...'',
             ''Installing dependencies...'', ''Linking controller files...'',
             ''src/main.js not found!'',
             ''package.json not found. Please manulally update the build command.'',
             ''Run: cd /bench/sites/../apps/shop/desk && npm run dev'',
             ''to start the development server and visit: http://<site>:8080'']
           \<and> files st' [''bench'', ''apps'', ''shop'', ''shop'', ''hooks.py''] =
             Some ''app_name = 1\<newline>\<newline>website_route_rules = [{'from_route': '/desk/<path:app_path>', 'to_route': 'desk'},]''
           \<and> files st' [''bench'', ''apps'', ''shop'', ''desk'', ''vite.config.js''] =
             Some ''shop/desk''
           \<and> files st' [''bench'', ''apps'', ''shop'', ''desk'', ''src'', ''router'', ''index.js''] =
             Some ''desk''
           \<and> files st' [''bench'', ''apps'', ''shop'', ''desk'', ''src'', ''main.js''] = None
           \<and> [''bench'', ''apps'', ''shop'', ''desk'', ''src'', ''router''] \<in> dirs st'
           \<and> [''bench'', ''apps'', ''shop'', ''desk'', ''src'', ''views''] \<in> dirs st'
           \<and> [''bench'', ''apps'', ''shop'', ''shop'', ''www''] \<in> dirs st')"
proof -
  let ?e = "\<lparr>run_process = (\<lambda>args d st.
           if take 2 args = [''yarn'', ''create'']
           then and_then (mkdir (joinpath d (args ! 3)) st) (mkdir (joinpath d (args ! 3 @ ''/src'')))
           else Inr st),
        create_file = (\<lambda>p t st.
           and_then (if exists st p then Inr st else touch p st)
             (\<lambda>st. if t = [] then Inr st else write_text p t st)),
        json_load = (\<lambda>t. None), json_dump = (\<lambda>d. []),
        MAIN_JS_BOILERPLATE = ''m'', PROXY_OPTIONS_BOILERPLATE = ''p'',
        VITE_CONFIG_BOILERPLATE = ''{{app}}/{{name}}'', ROUTER_INDEX_BOILERPLATE = ''{{name}}'',
        AUTH_ROUTES_BOILERPLATE = ''a'', APP_VUE_BOILERPLATE = ''v'',
        HOME_VUE_BOILERPLATE = ''h'', LOGIN_VUE_BOILERPLATE = ''l''\<rparr>"
  let ?self = "\<lparr>app = ''shop'', spa_name = ''desk'', add_tailwindcss = False\<rparr>"
  let ?st = "\<lparr>files = [[''bench'', ''apps'', ''shop'', ''shop'', ''hooks.py''] \<mapsto> ''app_name = 1\<newline>''],
        dirs = {[''bench''], [''bench'', ''sites''], [''bench'', ''apps''],
                [''bench'', ''apps'', ''shop''], [''bench'', ''apps'', ''shop'', ''shop'']},
        cwd = [''bench'', ''sites''], stdout = []\<rparr>"
  let ?st1 = "\<lparr>files = [[''bench'', ''apps'', ''shop'', ''shop'', ''hooks.py''] \<mapsto> ''app_name = 1\<newline>''],
        dirs = {[''bench'', ''apps'', ''shop'', ''desk'', ''src''],
                [''bench'', ''apps'', ''shop'', ''desk''],
                [''bench''], [''bench'', ''sites''], [''bench'', ''apps''],
                [''bench'', ''apps'', ''shop''], [''bench'', ''apps'', ''shop'', ''shop'']},
        cwd = [''bench'', ''sites''],
        stdout = [''Generating spa...'', ''Scafolding vue project...'',
          ''Installing dependencies...'']\<rparr>"
  have p: "app_path ?self = PosixPath [] [''..'', ''apps'', ''shop'']"
    "spa_path ?self = PosixPath [] [''..'', ''apps'', ''shop'', ''desk'']"
    by (simp_all add: spa_path_def app_path_def joinpath_def Path_def parse_root_def
          parse_parts_def)
  have h1: "initialize_vue_vite_project ?e ?self (echo ''Generating spa...'' ?st) = Inr ?st1"
    by (simp add: initialize_vue_vite_project_def and_then_def echo_def p joinpath_def
          parse_parts_def mkdir_def resolve_def is_dir_def is_file_def)
  have h2: "\<not> exists ?st1 (joinpath (app_path ?self) (spa_name ?self @ ''/src/main.js''))"
    by (simp add: exists_def resolve_def is_dir_def is_file_def p joinpath_def parse_parts_def)
  have r: "str_replace ''{{name}}'' ''desk'' (str_replace ''{{app}}'' ''shop'' ''{{app}}/{{name}}'')
      = ''shop/desk''"
    "str_replace ''{{name}}'' ''desk'' ''{{name}}'' = ''desk''"
    by code_simp+
  from C8_missing_main_js [OF h1 h2] h1 h2 show ?thesis
    by (simp add: echo_def and_then_def setup_proxy_options_def setup_vue_router_def
          create_vue_files_def update_package_json_def create_www_directory_def
          add_routing_rule_to_hooks_def p joinpath_def Path_def parse_root_def parse_parts_def
          exists_def resolve_def is_dir_def is_file_def absolute_def path_str_def
          write_text_def read_text_def mkdir_def touch_def r updates_hooks_desk Let_def)
qed

subsection \<open>Claim C9\<close>

text \<open>
  Claim C9. The rule is put in through the placeholder \<^verbatim>\<open>{rule}\<close> and a replacement
  over the whole text. For a file text in which the pattern finds no declaration and
  that holds the placeholder (here after a text \<open>a\<close> without an opening brace, so that
  this is its first occurrence), the occurrence is replaced by the record of the new
  rule, as is every later one, and the output does not start with the input: the
  content of the file is not kept as it was.
\<close>

theorem C9_placeholder_replaced_everywhere:
  assumes "search (a @ placeholder @ b) = None" and "CHR ''{'' \<notin> set a"
  shows "updates_hooks (a @ placeholder @ b) name =
       a @ rule name @ str_replace placeholder (rule name) b
         @ newline # ''website_route_rules = ['' @ rule name @ '',]''
     \<and> \<not> prefix (a @ placeholder @ b) (updates_hooks (a @ placeholder @ b) name)"
proof -
  have eq: "updates_hooks (a @ placeholder @ b) name =
       a @ rule name @ str_replace placeholder (rule name) b
         @ newline # ''website_route_rules = ['' @ rule name @ '',]''"
    by (simp add: updates_no_match [OF assms(1)] str_replace_first [OF assms(2)])
  have "\<not> prefix (placeholder @ b) (rule name @ t)" for t
    by (simp add: placeholder_def rule_def quote_def)
  with eq show ?thesis by simp
qed

text \<open>An instance: the placeholder in a comment line.\<close>

theorem C9_witness:
  "search (''# '' @ placeholder @ ''\<newline>'') = None \<and> CHR ''{'' \<notin> set ''# ''
   \<and> updates_hooks ''# {rule}\<newline>'' ''b'' =
       ''# {'from_route': '/b/<path:app_path>', 'to_route': 'b'}\<newline>\<newline>website_route_rules = [{'from_route': '/b/<path:app_path>', 'to_route': 'b'},]''
   \<and> \<not> prefix ''# {rule}\<newline>'' (updates_hooks ''# {rule}\<newline>'' ''b'')"
proof -
  have h1: "search (''# '' @ placeholder @ ''\<newline>'') = None"
    by (simp add: placeholder_def match_at_unfold variable_def)
  have h2: "CHR ''{'' \<notin> set ''# ''" by simp
  have r: "str_replace placeholder (rule ''b'') ''\<newline>'' = ''\<newline>''"
    by (rule str_replace_absent) (simp_all add: placeholder_def sublist_Cons_right)
  from C9_placeholder_replaced_everywhere [OF h1 h2, of "''b''"] h1 h2 r show ?thesis
    by (simp add: placeholder_def rule_def quote_def newline_def)
qed

subsection \<open>Claim C10\<close>

text \<open>
  Claim C10. The record that is put in depends on the SPA name alone: it is
  \<^verbatim>\<open>{'from_route': '/NAME/<path:app_path>', 'to_route': 'NAME'}\<close>, and for every file
  text the output holds a declaration of the variable whose list starts with that
  record. The function takes the file text and the SPA name, no routing rule.
\<close>

theorem C10_rule_from_name:
  "rule name = ''{'from_route': '/'' @ name @ ''/<path:app_path>', 'to_route': '' @ [quote] @ name @ [quote] @ ''}''
   \<and> sublist (''website_route_rules = ['' @ rule name) (updates_hooks hooks name)"
proof
  show "rule name = ''{'from_route': '/'' @ name @ ''/<path:app_path>', 'to_route': '' @ [quote] @ name @ [quote] @ ''}''"
    by (simp add: rule_def quote_def)
  show "sublist (''website_route_rules = ['' @ rule name) (updates_hooks hooks name)"
  proof (cases "search hooks")
    case None
    have "sublist (''website_route_rules = ['' @ rule name)
       ((str_replace placeholder (rule name) hooks @ [newline])
         @ (''website_route_rules = ['' @ rule name) @ '',]'')"
      by (rule sublist_appendI)
    with updates_no_match [OF None, of name] show ?thesis by simp
  next
    case (Some m)
    then obtain p g r where "search hooks = Some (p, g, r)" by (cases m) auto
    from updates_match [OF this, of name]
    have "updates_hooks hooks name = str_replace placeholder (rule name) p
       @ (''website_route_rules = ['' @ rule name)
       @ ('', '' @ str_replace placeholder (rule name) (g @ CHR '']'' # sub r))"
      by simp
    then show ?thesis by (simp only: sublist_appendI)
  qed
qed

end
